theory Spec2Isabelle
  imports Main
begin

section \<open>Strings of the host language\<close>

text \<open>
  Source strings are modelled as \<^typ>\<open>string\<close>, a list of 8-bit characters. Case folding
  and the white-space class are modelled on the ASCII range, where they agree with the
  host language's \<^verbatim>\<open>toLowerCase\<close>, \<^verbatim>\<open>toUpperCase\<close>, \<^verbatim>\<open>trim\<close> and \<^verbatim>\<open>\s\<close>.
\<close>

definition toLowerChar :: "char \<Rightarrow> char" where
  "toLowerChar c =
     (case map_of (zip ''ABCDEFGHIJKLMNOPQRSTUVWXYZ'' ''abcdefghijklmnopqrstuvwxyz'') c of
        Some d \<Rightarrow> d
      | None \<Rightarrow> c)"

definition toUpperChar :: "char \<Rightarrow> char" where
  "toUpperChar c =
     (case map_of (zip ''abcdefghijklmnopqrstuvwxyz'' ''ABCDEFGHIJKLMNOPQRSTUVWXYZ'') c of
        Some d \<Rightarrow> d
      | None \<Rightarrow> c)"

definition toLowerCase :: "string \<Rightarrow> string" where
  "toLowerCase s = map toLowerChar s"

definition toUpperCase :: "string \<Rightarrow> string" where
  "toUpperCase s = map toUpperChar s"

text \<open>The class \<^verbatim>\<open>\s\<close>: tab, line feed, vertical tab, form feed, carriage return, space.\<close>

definition isSpace :: "char \<Rightarrow> bool" where
  "isSpace c = (c \<in> set [CHR 0x09, CHR 0x0A, CHR 0x0B, CHR 0x0C, CHR 0x0D, CHR '' ''])"

definition trim :: "string \<Rightarrow> string" where
  "trim s = rev (dropWhile isSpace (rev (dropWhile isSpace s)))"

definition startsWith :: "string \<Rightarrow> string \<Rightarrow> bool" where
  "startsWith s p = (take (length p) s = p)"

text \<open>\<^verbatim>\<open>s.indexOf(p, from)\<close>: the first position at or after \<open>from\<close> where \<open>p\<close> occurs, or \<open>-1\<close>.\<close>

fun indexOfAt :: "string \<Rightarrow> string \<Rightarrow> nat \<Rightarrow> int" where
  "indexOfAt [] p pos = (if p = [] then int pos else - 1)"
| "indexOfAt (c # cs) p pos =
     (if startsWith (c # cs) p then int pos else indexOfAt cs p (Suc pos))"

definition indexOf :: "string \<Rightarrow> string \<Rightarrow> nat \<Rightarrow> int" where
  "indexOf s p from = (let k = min from (length s) in indexOfAt (drop k s) p k)"

text \<open>\<^verbatim>\<open>s.lastIndexOf(c)\<close> for a one-character needle.\<close>

definition lastIndexOf :: "string \<Rightarrow> char \<Rightarrow> int" where
  "lastIndexOf s c =
     (if c \<in> set s then int (length s - 1 - length (takeWhile (\<lambda>x. x \<noteq> c) (rev s))) else - 1)"

text \<open>\<^verbatim>\<open>s.split(sep)\<close> for a one-character separator: always at least one piece.\<close>

fun split :: "string \<Rightarrow> char \<Rightarrow> string list" where
  "split [] sep = [[]]"
| "split (c # cs) sep =
     (if c = sep then [] # split cs sep
      else (case split cs sep of
              [] \<Rightarrow> [[c]]
            | w # ws \<Rightarrow> (c # w) # ws))"

section \<open>Rule data model (types.ts)\<close>

datatype FilterMode = Deny | Allow

datatype FilterType = Folder | DocumentName | Tag | Keyword

datatype HttpMethod = GET | PUT | POST | PATCH | DELETE

fun FilterMode_str :: "FilterMode \<Rightarrow> string" where
  "FilterMode_str Deny = ''deny''"
| "FilterMode_str Allow = ''allow''"

fun HttpMethod_str :: "HttpMethod \<Rightarrow> string" where
  "HttpMethod_str GET = ''GET''"
| "HttpMethod_str PUT = ''PUT''"
| "HttpMethod_str POST = ''POST''"
| "HttpMethod_str PATCH = ''PATCH''"
| "HttpMethod_str DELETE = ''DELETE''"

text \<open>
  An optional field of the source is an \<^typ>\<open>'a option\<close>: \<open>None\<close> is \<^verbatim>\<open>undefined\<close>.
\<close>

record FilterRule =
  rule_id :: string
  mode :: FilterMode
  pattern :: string
  isRegex :: bool
  enabled :: bool
  description :: string
  methods :: "HttpMethod list option"
  regexFlags :: "string option"

record FilterDecision =
  allowed :: bool
  reason :: string
  matchedRule :: "FilterRule option"
  filterType :: "FilterType option"

record ParsedRules =
  folder :: "FilterRule list"
  name :: "FilterRule list"
  tag :: "FilterRule list"
  keyword :: "FilterRule list"

section \<open>The collaborators: vault, metadata cache, pattern libraries\<close>

text \<open>
  The vault and the metadata cache are the host application's objects; the model takes the
  methods the filters call as functions. \<open>getAbstractFileByPath\<close> and \<open>getFileCache\<close>
  return \<open>None\<close> for \<^verbatim>\<open>null\<close>; \<open>cachedRead\<close> returns \<open>None\<close> when the read is rejected.
  Of a cache entry the filters read the \<^verbatim>\<open>tag\<close> of each inline tag (\<open>tags\<close>) and
  \<^verbatim>\<open>frontmatter?.tags\<close> (\<open>frontmatter_tags\<close>); an absent list is \<open>None\<close>.
\<close>

datatype TAbstractFile = TFile string

record Vault =
  getAbstractFileByPath :: "string \<Rightarrow> TAbstractFile option"
  cachedRead :: "TAbstractFile \<Rightarrow> string option"

record CachedMetadata =
  tags :: "string list option"
  frontmatter_tags :: "string list option"

record MetadataCache =
  getFileCache :: "TAbstractFile \<Rightarrow> CachedMetadata option"

record App =
  vault :: Vault
  metadataCache :: MetadataCache

text \<open>
  The glob library and the regular-expression engine are not part of the repository;
  every matcher takes them as a parameter. \<open>minimatch h p pat\<close> stands for
  \<^verbatim>\<open>minimatch(p, pat, { dot: true })\<close>. \<open>RegExp h pat flags\<close> stands for
  \<^verbatim>\<open>new RegExp(pat, flags)\<close>: \<open>None\<close> when the constructor throws, otherwise the
  \<^verbatim>\<open>test\<close> predicate of the freshly built expression. \<^verbatim>\<open>new RegExp(pat)\<close> is the
  call with the empty flag string.
\<close>

record Host =
  minimatch :: "string \<Rightarrow> string \<Rightarrow> bool"
  RegExp :: "string \<Rightarrow> string \<Rightarrow> (string \<Rightarrow> bool) option"

section \<open>Folder and document-name matchers\<close>

text \<open>
  folder-filter.ts, \<^verbatim>\<open>checkFolderFilter\<close>. The loop over the rules is the recursion on
  the list; \<^verbatim>\<open>continue\<close> is the recursive call, the \<^verbatim>\<open>catch\<close> around the constructor is
  the \<open>None\<close> branch.
\<close>

fun checkFolderFilter :: "Host \<Rightarrow> string \<Rightarrow> FilterRule list \<Rightarrow> FilterDecision option" where
  "checkFolderFilter h filePath [] = None"
| "checkFolderFilter h filePath (rule # rules) =
     (if \<not> enabled rule then checkFolderFilter h filePath rules
      else
        (case (if isRegex rule
               then (case RegExp h (pattern rule) [] of
                       None \<Rightarrow> None
                     | Some re \<Rightarrow> Some (re filePath))
               else Some (minimatch h filePath (pattern rule))) of
           None \<Rightarrow> checkFolderFilter h filePath rules
         | Some matched \<Rightarrow>
             if matched
             then Some \<lparr> allowed = (mode rule = Allow),
                         reason = ''Folder filter: '' @ FilterMode_str (mode rule)
                                  @ '' by pattern '' @ [CHR 0x22] @ pattern rule @ [CHR 0x22],
                         matchedRule = Some rule,
                         filterType = Some Folder \<rparr>
             else checkFolderFilter h filePath rules))"

text \<open>document-name-filter.ts, \<^verbatim>\<open>checkDocumentNameFilter\<close>.\<close>

definition basename_of :: "string \<Rightarrow> string" where
  "basename_of filePath =
     (let lastSlash = lastIndexOf filePath (CHR ''/'')
      in if lastSlash \<ge> 0 then drop (nat (lastSlash + 1)) filePath else filePath)"

fun documentNameLoop :: "Host \<Rightarrow> string \<Rightarrow> FilterRule list \<Rightarrow> FilterDecision option" where
  "documentNameLoop h basename [] = None"
| "documentNameLoop h basename (rule # rules) =
     (if \<not> enabled rule then documentNameLoop h basename rules
      else
        (case (if isRegex rule
               then (case RegExp h (pattern rule) [] of
                       None \<Rightarrow> None
                     | Some re \<Rightarrow> Some (re basename))
               else Some (minimatch h basename (pattern rule))) of
           None \<Rightarrow> documentNameLoop h basename rules
         | Some matched \<Rightarrow>
             if matched
             then Some \<lparr> allowed = (mode rule = Allow),
                         reason = ''Document name filter: '' @ FilterMode_str (mode rule)
                                  @ '' by pattern '' @ [CHR 0x22] @ pattern rule @ [CHR 0x22],
                         matchedRule = Some rule,
                         filterType = Some DocumentName \<rparr>
             else documentNameLoop h basename rules))"

definition checkDocumentNameFilter ::
    "Host \<Rightarrow> string \<Rightarrow> FilterRule list \<Rightarrow> FilterDecision option" where
  "checkDocumentNameFilter h filePath rules = documentNameLoop h (basename_of filePath) rules"

section \<open>Tag matchers (tag-filter.ts)\<close>

datatype TagResult = TagsFound "string list" | FileNotFound | CacheUnavailable

definition collectFileTags :: "string \<Rightarrow> MetadataCache \<Rightarrow> Vault \<Rightarrow> TagResult" where
  "collectFileTags filePath mc v =
     (case getAbstractFileByPath v filePath of
        None \<Rightarrow> FileNotFound
      | Some file \<Rightarrow>
          (case getFileCache mc file of
             None \<Rightarrow> CacheUnavailable
           | Some cache \<Rightarrow>
               (let inline = (case tags cache of None \<Rightarrow> [] | Some tcs \<Rightarrow> tcs);
                    front = (case frontmatter_tags cache of
                               None \<Rightarrow> []
                             | Some ts \<Rightarrow>
                                 map (\<lambda>t. if startsWith t ''#'' then t else ''#'' @ t) ts)
                in TagsFound (map toLowerCase (inline @ front)))))"

definition emDash :: string where
  "emDash = [CHR 0xE2, CHR 0x80, CHR 0x94]"

definition checkGlobalTags ::
    "string \<Rightarrow> MetadataCache \<Rightarrow> Vault \<Rightarrow> string \<Rightarrow> string \<Rightarrow> FilterDecision option" where
  "checkGlobalTags filePath mc v globalAllowTag globalDenyTag =
     (case collectFileTags filePath mc v of
        FileNotFound \<Rightarrow> None
      | CacheUnavailable \<Rightarrow>
          if globalDenyTag \<noteq> [] \<or> globalAllowTag \<noteq> []
          then Some \<lparr> allowed = False,
                      reason = ''Tag cache unavailable '' @ emDash
                               @ '' denied (global tags configured)'',
                      matchedRule = None,
                      filterType = Some Tag \<rparr>
          else None
      | TagsFound lowerTags \<Rightarrow>
          if globalDenyTag \<noteq> [] \<and> toLowerCase globalDenyTag \<in> set lowerTags
          then Some \<lparr> allowed = False,
                      reason = ''Global deny tag '' @ [CHR 0x22] @ globalDenyTag @ [CHR 0x22]
                               @ '' present'',
                      matchedRule = None,
                      filterType = Some Tag \<rparr>
          else if globalAllowTag \<noteq> [] \<and> toLowerCase globalAllowTag \<in> set lowerTags
          then Some \<lparr> allowed = True,
                      reason = ''Global allow tag '' @ [CHR 0x22] @ globalAllowTag @ [CHR 0x22]
                               @ '' present'',
                      matchedRule = None,
                      filterType = Some Tag \<rparr>
          else None)"

fun tagLoop :: "string list \<Rightarrow> FilterRule list \<Rightarrow> FilterDecision option" where
  "tagLoop lowerTags [] = None"
| "tagLoop lowerTags (rule # rules) =
     (if \<not> enabled rule then tagLoop lowerTags rules
      else
        (let matched =
               (if CHR ''+'' \<in> set (pattern rule)
                then (let requiredTags =
                            map (\<lambda>t. toLowerCase (trim t)) (split (pattern rule) (CHR ''+''))
                      in list_all (\<lambda>rt. list_ex (\<lambda>t. t = rt) lowerTags) requiredTags)
                else (let ruleTag = toLowerCase (pattern rule)
                      in list_ex (\<lambda>t. t = ruleTag) lowerTags))
         in if matched
            then Some \<lparr> allowed = (mode rule = Allow),
                        reason = ''Tag filter: '' @ FilterMode_str (mode rule)
                                 @ '' by tag '' @ [CHR 0x22] @ pattern rule @ [CHR 0x22],
                        matchedRule = Some rule,
                        filterType = Some Tag \<rparr>
            else tagLoop lowerTags rules))"

definition checkTagFilter ::
    "string \<Rightarrow> FilterRule list \<Rightarrow> MetadataCache \<Rightarrow> Vault \<Rightarrow> FilterDecision option" where
  "checkTagFilter filePath rules mc v =
     (case collectFileTags filePath mc v of
        FileNotFound \<Rightarrow> None
      | CacheUnavailable \<Rightarrow>
          Some \<lparr> allowed = False,
                 reason = ''Tag cache unavailable '' @ emDash
                          @ '' denied (tag rules configured)'',
                 matchedRule = None,
                 filterType = Some Tag \<rparr>
      | TagsFound lowerTags \<Rightarrow> tagLoop lowerTags rules)"

section \<open>Keyword matcher (keyword-filter.ts)\<close>

fun keywordLoop :: "Host \<Rightarrow> string \<Rightarrow> FilterRule list \<Rightarrow> FilterDecision option" where
  "keywordLoop h content [] = None"
| "keywordLoop h content (rule # rules) =
     (if \<not> enabled rule then keywordLoop h content rules
      else
        (case (if isRegex rule
               then (case RegExp h (pattern rule) [] of
                       None \<Rightarrow> None
                     | Some re \<Rightarrow> Some (re content))
               else Some (indexOf content (pattern rule) 0 \<noteq> - 1)) of
           None \<Rightarrow> keywordLoop h content rules
         | Some matched \<Rightarrow>
             if matched
             then Some \<lparr> allowed = (mode rule = Allow),
                         reason = ''Keyword filter: '' @ FilterMode_str (mode rule)
                                  @ '' by pattern '' @ [CHR 0x22] @ pattern rule @ [CHR 0x22],
                         matchedRule = Some rule,
                         filterType = Some Keyword \<rparr>
             else keywordLoop h content rules))"

definition checkKeywordFilter ::
    "Host \<Rightarrow> string \<Rightarrow> FilterRule list \<Rightarrow> Vault \<Rightarrow> FilterDecision option" where
  "checkKeywordFilter h filePath rules v =
     (case getAbstractFileByPath v filePath of
        None \<Rightarrow> None
      | Some file \<Rightarrow>
          (case cachedRead v file of
             None \<Rightarrow> Some \<lparr> allowed = False,
                             reason = ''File read error'',
                             matchedRule = None,
                             filterType = Some Keyword \<rparr>
           | Some content \<Rightarrow> keywordLoop h content rules))"

section \<open>The engine (filter-engine.ts)\<close>

record Settings =
  defaultPolicy :: FilterMode
  globalAllowTag :: string
  globalDenyTag :: string

record FilterEngine =
  app :: App
  fileRules :: "ParsedRules option"

definition methodAllowed :: "FilterRule option \<Rightarrow> string \<Rightarrow> bool" where
  "methodAllowed rule method =
     (case rule of
        None \<Rightarrow> True
      | Some r \<Rightarrow>
          (case methods r of
             None \<Rightarrow> True
           | Some ms \<Rightarrow>
               if length ms = 0 then True
               else toUpperCase method \<in> set (map HttpMethod_str ms)))"

text \<open>
  The guard every stage of \<^verbatim>\<open>evaluateFile\<close> puts on its matcher's result:
  \<^verbatim>\<open>result && (!method || this.methodAllowed(result.matchedRule, method))\<close>; the result
  is returned when the guard holds. An absent method and the empty string are both falsy.
\<close>

definition stageReturns :: "string option \<Rightarrow> FilterDecision option \<Rightarrow> FilterDecision option" where
  "stageReturns method result =
     (case result of
        None \<Rightarrow> None
      | Some d \<Rightarrow>
          (case method of
             None \<Rightarrow> Some d
           | Some m \<Rightarrow> if m = [] \<or> methodAllowed (matchedRule d) m then Some d else None))"

definition defaultDecision :: "Settings \<Rightarrow> FilterDecision" where
  "defaultDecision settings =
     \<lparr> allowed = (defaultPolicy settings = Allow),
       reason = ''Default policy: '' @ FilterMode_str (defaultPolicy settings),
       matchedRule = None,
       filterType = None \<rparr>"

text \<open>
  The four rule stages of \<^verbatim>\<open>evaluateFile\<close>, each the block
  \<^verbatim>\<open>if (rules.length > 0) { const result = check(...); if (guard) return result; }\<close>:
  \<open>Some d\<close> when the block returns \<open>d\<close>, \<open>None\<close> when control falls to the next block.
\<close>

definition folderStage ::
    "Host \<Rightarrow> ParsedRules \<Rightarrow> string \<Rightarrow> string option \<Rightarrow> FilterDecision option" where
  "folderStage h rules filePath method =
     (if length (folder rules) > 0
      then stageReturns method (checkFolderFilter h filePath (folder rules))
      else None)"

definition nameStage ::
    "Host \<Rightarrow> ParsedRules \<Rightarrow> string \<Rightarrow> string option \<Rightarrow> FilterDecision option" where
  "nameStage h rules filePath method =
     (if length (name rules) > 0
      then stageReturns method (checkDocumentNameFilter h filePath (name rules))
      else None)"

definition tagStage ::
    "App \<Rightarrow> ParsedRules \<Rightarrow> string \<Rightarrow> string option \<Rightarrow> FilterDecision option" where
  "tagStage a rules filePath method =
     (if length (tag rules) > 0
      then stageReturns method (checkTagFilter filePath (tag rules) (metadataCache a) (vault a))
      else None)"

definition keywordStage ::
    "Host \<Rightarrow> App \<Rightarrow> ParsedRules \<Rightarrow> string \<Rightarrow> string option \<Rightarrow> FilterDecision option" where
  "keywordStage h a rules filePath method =
     (if length (keyword rules) > 0
      then stageReturns method (checkKeywordFilter h filePath (keyword rules) (vault a))
      else None)"

definition evaluateFile ::
    "Host \<Rightarrow> FilterEngine \<Rightarrow> string \<Rightarrow> Settings \<Rightarrow> string option \<Rightarrow> FilterDecision" where
  "evaluateFile h this filePath settings method =
     (case checkGlobalTags filePath (metadataCache (app this)) (vault (app this))
             (globalAllowTag settings) (globalDenyTag settings) of
        Some globalTagResult \<Rightarrow> globalTagResult
      | None \<Rightarrow>
          (case fileRules this of
             None \<Rightarrow> defaultDecision settings
           | Some rules \<Rightarrow>
               (case folderStage h rules filePath method of
                  Some result \<Rightarrow> result
                | None \<Rightarrow>
                    (case nameStage h rules filePath method of
                       Some result \<Rightarrow> result
                     | None \<Rightarrow>
                         (case tagStage (app this) rules filePath method of
                            Some result \<Rightarrow> result
                          | None \<Rightarrow>
                              (case keywordStage h (app this) rules filePath method of
                                 Some result \<Rightarrow> result
                               | None \<Rightarrow> defaultDecision settings))))))"

text \<open>
  \<^verbatim>\<open>filterPaths\<close>: every path is evaluated for the method \<^verbatim>\<open>"GET"\<close>; a denied path
  becomes \<^verbatim>\<open>null\<close> and the \<^verbatim>\<open>null\<close>s are filtered out. The evaluations read the same
  snapshot and do not interact, so \<^verbatim>\<open>Promise.all\<close> over them is the \<open>map\<close>.
\<close>

definition filterPaths :: "Host \<Rightarrow> FilterEngine \<Rightarrow> string list \<Rightarrow> Settings \<Rightarrow> string list" where
  "filterPaths h this paths settings =
     (let results =
            map (\<lambda>p. let decision = evaluateFile h this p settings (Some ''GET'')
                     in if allowed decision then Some p else None) paths
      in List.map_filter (\<lambda>p. p) results)"

section \<open>The rule file (rules-file.ts)\<close>

text \<open>
  \<^verbatim>\<open>RuleEntry\<close>: a rule with the kind its line names (\<^verbatim>\<open>"folder" | "name" | "tag" |
  "keyword"\<close>) and its 0-based line number.
\<close>

datatype RuleKind = FolderKind | NameKind | TagKind | KeywordKind

fun RuleKind_str :: "RuleKind \<Rightarrow> string" where
  "RuleKind_str FolderKind = ''folder''"
| "RuleKind_str NameKind = ''name''"
| "RuleKind_str TagKind = ''tag''"
| "RuleKind_str KeywordKind = ''keyword''"

record RuleEntry =
  rule :: FilterRule
  entryType :: RuleKind
  lineNumber :: nat

record ParseResult =
  grouped :: ParsedRules
  entries :: "RuleEntry list"

text \<open>\<^verbatim>\<open>VALID_MODES\<close>, \<^verbatim>\<open>VALID_TYPES\<close>, \<^verbatim>\<open>VALID_METHODS\<close>: membership and the cast in one.\<close>

definition validMode :: "string \<Rightarrow> FilterMode option" where
  "validMode s = (if s = ''allow'' then Some Allow else if s = ''deny'' then Some Deny else None)"

definition validType :: "string \<Rightarrow> RuleKind option" where
  "validType s =
     (if s = ''folder'' then Some FolderKind
      else if s = ''name'' then Some NameKind
      else if s = ''tag'' then Some TagKind
      else if s = ''keyword'' then Some KeywordKind
      else None)"

definition validMethod :: "string \<Rightarrow> HttpMethod option" where
  "validMethod s =
     (if s = ''GET'' then Some GET
      else if s = ''PUT'' then Some PUT
      else if s = ''POST'' then Some POST
      else if s = ''PATCH'' then Some PATCH
      else if s = ''DELETE'' then Some DELETE
      else None)"

definition DISABLED_PREFIX :: string where
  "DISABLED_PREFIX = ''#!disabled ''"

text \<open>
  \<^verbatim>\<open>content.match(/^(\S+)\s+(\S+)\s+([\s\S]*)$/)\<close>. Each \<^verbatim>\<open>\S+\<close> must be followed by
  white space and each \<^verbatim>\<open>\s+\<close> but the last by a character that is not, so the two
  tokens and the first gap are maximal runs; the last gap is matched greedily and the rest
  of the text, whatever it is, is the third group. \<open>None\<close> when there is no match.
\<close>

definition firstSplit :: "string \<Rightarrow> (string \<times> string \<times> string) option" where
  "firstSplit content =
     (let modeStr = takeWhile (\<lambda>c. \<not> isSpace c) content;
          rest1 = dropWhile (\<lambda>c. \<not> isSpace c) content;
          rest2 = dropWhile isSpace rest1;
          typeStr = takeWhile (\<lambda>c. \<not> isSpace c) rest2;
          rest3 = dropWhile (\<lambda>c. \<not> isSpace c) rest2;
          remainder = dropWhile isSpace rest3
      in if modeStr = [] \<or> rest1 = [] \<or> typeStr = [] \<or> rest3 = [] then None
         else Some (modeStr, typeStr, remainder))"

text \<open>\<^verbatim>\<open>s.split(/\s+/)\<close>: the pieces between maximal runs of white space.\<close>

fun splitSpaces :: "string \<Rightarrow> string list" where
  "splitSpaces [] = [[]]"
| "splitSpaces (c # cs) =
     (if isSpace c
      then (if cs \<noteq> [] \<and> isSpace (hd cs) then splitSpaces cs else [] # splitSpaces cs)
      else (case splitSpaces cs of
              [] \<Rightarrow> [[c]]
            | w # ws \<Rightarrow> (c # w) # ws))"

text \<open>
  \<^verbatim>\<open>cleanPattern.match(/\/([gimsuy]+)$/)\<close>, the captured flags. A match runs from a
  \<^verbatim>\<open>/\<close> to the end of the text through flag letters only, so it can only start at the
  last \<^verbatim>\<open>/\<close>.
\<close>

definition flagMatch :: "string \<Rightarrow> string option" where
  "flagMatch s =
     (let suffix = rev (takeWhile (\<lambda>c. c \<noteq> CHR ''/'') (rev s))
      in if CHR ''/'' \<in> set s \<and> suffix \<noteq> [] \<and> list_all (\<lambda>c. c \<in> set ''gimsuy'') suffix
         then Some suffix else None)"

text \<open>The decimal numeral of a line number, for \<^verbatim>\<open>`rule-line-${lineIndex + 1}`\<close>.\<close>

fun decimal :: "nat \<Rightarrow> string" where
  "decimal n =
     (if n < 10 then [''0123456789'' ! n]
      else decimal (n div 10) @ [''0123456789'' ! (n mod 10)])"

declare decimal.simps [simp del]

definition parseMethods :: "string \<Rightarrow> HttpMethod list option" where
  "parseMethods methodsStr =
     (let ms = List.map_filter (\<lambda>m. validMethod (toUpperCase (trim m)))
                 (split methodsStr (CHR '',''))
      in if length ms = 0 then None else Some ms)"

text \<open>
  \<^verbatim>\<open>parseRuleLine\<close>; \<open>None\<close> is the \<^verbatim>\<open>null\<close> of a rejected line (the warning on the
  console is not modelled). The pattern and the optional method text are taken from the
  remainder first, then mode and type are checked, in the order of the source.
\<close>

definition patternAndMethods :: "string \<Rightarrow> (string \<times> string option) option" where
  "patternAndMethods remainder =
     (let trimmedRemainder = trim remainder
      in if startsWith trimmedRemainder [CHR 0x22]
         then (let closeQuote = indexOf trimmedRemainder [CHR 0x22] 1
               in if closeQuote = - 1 then None
                  else (let pat = take (nat closeQuote - 1) (drop 1 trimmedRemainder);
                            afterQuote = trim (drop (nat closeQuote + 1) trimmedRemainder)
                        in Some (pat, if afterQuote = [] then None else Some afterQuote)))
         else (case splitSpaces trimmedRemainder of
                 [] \<Rightarrow> Some ([], None)
               | p0 # ps \<Rightarrow> Some (p0, case ps of [] \<Rightarrow> None | p1 # _ \<Rightarrow> Some p1)))"

definition parseRuleLine :: "string \<Rightarrow> nat \<Rightarrow> RuleEntry option" where
  "parseRuleLine line lineIndex =
     (let enabled0 = \<not> startsWith line DISABLED_PREFIX;
          content = (if startsWith line DISABLED_PREFIX
                     then trim (drop (length DISABLED_PREFIX) line) else line)
      in case firstSplit content of
           None \<Rightarrow> None
         | Some (modeStr, typeStr, remainder) \<Rightarrow>
     (case patternAndMethods remainder of
           None \<Rightarrow> None
         | Some (pat, methodsStr) \<Rightarrow>
     if pat = [] then None
     else
     (case validMode (toLowerCase modeStr) of
           None \<Rightarrow> None
         | Some mode0 \<Rightarrow>
     (case validType (toLowerCase typeStr) of
           None \<Rightarrow> None
         | Some filterType0 \<Rightarrow>
     (let isRegex0 = startsWith pat ''~'';
          cleanPattern0 = (if isRegex0 then drop 1 pat else pat);
          flags0 = (if isRegex0 then flagMatch cleanPattern0 else None);
          cleanPattern = (case flags0 of
                            None \<Rightarrow> cleanPattern0
                          | Some fl \<Rightarrow>
                              take (length cleanPattern0 - (length fl + 1)) cleanPattern0);
          methods0 = (case methodsStr of
                        None \<Rightarrow> None
                      | Some ms \<Rightarrow> if ms = [] then None else parseMethods ms)
      in Some \<lparr> rule = \<lparr> rule_id = ''rule-line-'' @ decimal (lineIndex + 1),
                          mode = mode0,
                          pattern = cleanPattern,
                          isRegex = isRegex0,
                          enabled = enabled0,
                          description = ''line '' @ decimal (lineIndex + 1),
                          methods = methods0,
                          regexFlags = flags0 \<rparr>,
                 entryType = filterType0,
                 lineNumber = lineIndex \<rparr>)))))"

text \<open>\<^verbatim>\<open>grouped[entry.filterType].push(entry.rule)\<close>.\<close>

fun pushRule :: "RuleKind \<Rightarrow> FilterRule \<Rightarrow> ParsedRules \<Rightarrow> ParsedRules" where
  "pushRule FolderKind r g = g\<lparr> folder := folder g @ [r] \<rparr>"
| "pushRule NameKind r g = g\<lparr> name := name g @ [r] \<rparr>"
| "pushRule TagKind r g = g\<lparr> tag := tag g @ [r] \<rparr>"
| "pushRule KeywordKind r g = g\<lparr> keyword := keyword g @ [r] \<rparr>"

text \<open>
  The loop of \<^verbatim>\<open>parseRulesFile\<close> over the lines from index \<open>i\<close> on, with the two
  results it builds as the state.
\<close>

fun parseLines :: "string list \<Rightarrow> nat \<Rightarrow> ParseResult \<Rightarrow> ParseResult" where
  "parseLines [] i acc = acc"
| "parseLines (l # ls) i acc =
     (let line = trim l
      in if line = [] then parseLines ls (Suc i) acc
         else if startsWith line ''#'' \<and> \<not> startsWith line DISABLED_PREFIX
           then parseLines ls (Suc i) acc
         else (case parseRuleLine line i of
                 None \<Rightarrow> parseLines ls (Suc i) acc
               | Some entry \<Rightarrow>
                   parseLines ls (Suc i)
                     \<lparr> grouped = (if enabled (rule entry)
                                  then pushRule (entryType entry) (rule entry) (grouped acc)
                                  else grouped acc),
                       entries = entries acc @ [entry] \<rparr>))"

definition parseRulesFile :: "string \<Rightarrow> ParseResult" where
  "parseRulesFile content =
     parseLines (split content (CHR 0x0A)) 0
       \<lparr> grouped = \<lparr> folder = [], name = [], tag = [], keyword = [] \<rparr>, entries = [] \<rparr>"

text \<open>\<^verbatim>\<open>xs.join(sep)\<close>.\<close>

fun join :: "string list \<Rightarrow> string \<Rightarrow> string" where
  "join [] sep = []"
| "join [x] sep = x"
| "join (x # y # ys) sep = x @ sep @ join (y # ys) sep"

definition serializeRule :: "string \<Rightarrow> FilterRule \<Rightarrow> string" where
  "serializeRule filterType0 r =
     (let prefix = (if enabled r then [] else DISABLED_PREFIX);
          flagSuffix = (case regexFlags r of
                          None \<Rightarrow> []
                        | Some fl \<Rightarrow> if isRegex r \<and> fl \<noteq> [] then ''/'' @ fl else []);
          rawPattern = (if isRegex r then ''~'' @ pattern r @ flagSuffix else pattern r);
          patternStr = (if CHR '' '' \<in> set rawPattern
                        then [CHR 0x22] @ rawPattern @ [CHR 0x22] else rawPattern);
          methodStr = (case methods r of
                         None \<Rightarrow> []
                       | Some ms \<Rightarrow>
                           if length ms > 0 then ''  '' @ join (map HttpMethod_str ms) '','' else [])
      in prefix @ FilterMode_str (mode r) @ ''  '' @ filterType0 @ ''  '' @ patternStr @ methodStr)"

section \<open>What a matcher tests of one rule\<close>

text \<open>
  The test each matcher loop applies to one enabled rule, and the decision it builds when
  the test succeeds, named so that properties of the loops can be stated. A regular
  expression the constructor rejects matches nothing.
\<close>

definition folderRuleMatches :: "Host \<Rightarrow> string \<Rightarrow> FilterRule \<Rightarrow> bool" where
  "folderRuleMatches h subject r =
     (if isRegex r
      then (case RegExp h (pattern r) [] of None \<Rightarrow> False | Some re \<Rightarrow> re subject)
      else minimatch h subject (pattern r))"

definition keywordRuleMatches :: "Host \<Rightarrow> string \<Rightarrow> FilterRule \<Rightarrow> bool" where
  "keywordRuleMatches h content r =
     (if isRegex r
      then (case RegExp h (pattern r) [] of None \<Rightarrow> False | Some re \<Rightarrow> re content)
      else indexOf content (pattern r) 0 \<noteq> - 1)"

definition tagRuleMatches :: "string list \<Rightarrow> FilterRule \<Rightarrow> bool" where
  "tagRuleMatches lowerTags r =
     (if CHR ''+'' \<in> set (pattern r)
      then list_all (\<lambda>rt. rt \<in> set lowerTags)
             (map (\<lambda>t. toLowerCase (trim t)) (split (pattern r) (CHR ''+'')))
      else toLowerCase (pattern r) \<in> set lowerTags)"

definition ruleDecision :: "string \<Rightarrow> string \<Rightarrow> FilterType \<Rightarrow> FilterRule \<Rightarrow> FilterDecision" where
  "ruleDecision label by ft r =
     \<lparr> allowed = (mode r = Allow),
       reason = label @ FilterMode_str (mode r) @ by @ [CHR 0x22] @ pattern r @ [CHR 0x22],
       matchedRule = Some r,
       filterType = Some ft \<rparr>"

text \<open>The three decisions the matchers build when they fail closed.\<close>

definition globalUnavailableDecision :: FilterDecision where
  "globalUnavailableDecision =
     \<lparr> allowed = False,
       reason = ''Tag cache unavailable '' @ emDash @ '' denied (global tags configured)'',
       matchedRule = None,
       filterType = Some Tag \<rparr>"

definition tagUnavailableDecision :: FilterDecision where
  "tagUnavailableDecision =
     \<lparr> allowed = False,
       reason = ''Tag cache unavailable '' @ emDash @ '' denied (tag rules configured)'',
       matchedRule = None,
       filterType = Some Tag \<rparr>"

definition readErrorDecision :: FilterDecision where
  "readErrorDecision =
     \<lparr> allowed = False,
       reason = ''File read error'',
       matchedRule = None,
       filterType = Some Keyword \<rparr>"

section \<open>What a rule file contributes, line by line\<close>

text \<open>
  The entry one line of the file yields, if any: what the body of the loop in
  \<^verbatim>\<open>parseRulesFile\<close> computes before it pushes. \<open>lineEntries\<close> collects them in file
  order, and \<open>activeRules k\<close> selects from a list of entries the enabled rules of kind
  \<open>k\<close>.
\<close>

definition lineEntry :: "string \<Rightarrow> nat \<Rightarrow> RuleEntry option" where
  "lineEntry l i =
     (let line = trim l
      in if line = [] then None
         else if startsWith line ''#'' \<and> \<not> startsWith line DISABLED_PREFIX then None
         else parseRuleLine line i)"

fun lineEntries :: "string list \<Rightarrow> nat \<Rightarrow> RuleEntry list" where
  "lineEntries [] i = []"
| "lineEntries (l # ls) i =
     (case lineEntry l i of None \<Rightarrow> [] | Some e \<Rightarrow> [e]) @ lineEntries ls (Suc i)"

definition activeRules :: "RuleKind \<Rightarrow> RuleEntry list \<Rightarrow> FilterRule list" where
  "activeRules k es = map rule (filter (\<lambda>e. enabled (rule e) \<and> entryType e = k) es)"

text \<open>
  A rule file with every line that carries the disabled marker emptied; the other lines
  keep their content and their line numbers.
\<close>

definition blankDisabled :: "string \<Rightarrow> string" where
  "blankDisabled l = (if startsWith (trim l) DISABLED_PREFIX then [] else l)"

definition withoutDisabledLines :: "string \<Rightarrow> string" where
  "withoutDisabledLines content =
     join (map blankDisabled (split content (CHR 0x0A))) [CHR 0x0A]"

section \<open>Rules that the serializer writes unambiguously\<close>

text \<open>
  \<open>rawPattern r\<close> is the pattern text \<^verbatim>\<open>serializeRule\<close> writes before it decides on
  quoting. A rule is \<open>serializable\<close> when the parser reads that text back as written:
  flags are flag letters and belong to a regular expression; a regular expression
  without flags does not end in what the parser takes for flags; a glob is not empty and
  does not start with the tilde; a pattern that is quoted (it holds a space) holds no
  double quote, and a pattern that is written bare holds no white space and does not
  start with a double quote; the method list is absent or not empty.
\<close>

definition noSpaces :: "string \<Rightarrow> bool" where
  "noSpaces s = list_all (\<lambda>c. \<not> isSpace c) s"

definition flagLetters :: "string \<Rightarrow> bool" where
  "flagLetters fl = (fl \<noteq> [] \<and> list_all (\<lambda>c. c \<in> set ''gimsuy'') fl)"

definition rawPattern :: "FilterRule \<Rightarrow> string" where
  "rawPattern r =
     (if isRegex r
      then ''~'' @ pattern r @ (case regexFlags r of None \<Rightarrow> [] | Some fl \<Rightarrow> ''/'' @ fl)
      else pattern r)"

definition serializable :: "FilterRule \<Rightarrow> bool" where
  "serializable r =
     ((case regexFlags r of
         None \<Rightarrow> isRegex r \<longrightarrow> flagMatch (pattern r) = None
       | Some fl \<Rightarrow> isRegex r \<and> flagLetters fl)
      \<and> (\<not> isRegex r \<longrightarrow> pattern r \<noteq> [] \<and> \<not> startsWith (pattern r) ''~'')
      \<and> (if CHR '' '' \<in> set (rawPattern r)
         then CHR 0x22 \<notin> set (rawPattern r)
         else noSpaces (rawPattern r) \<and> \<not> startsWith (rawPattern r) [CHR 0x22])
      \<and> methods r \<noteq> Some [])"

section \<open>A sample installation\<close>

text \<open>
  Concrete collaborators on which the theorems below are instantiated. \<open>sampleRegExp\<close>
  builds an expression for a pattern of ordinary characters with an optional leading
  \<^verbatim>\<open>^\<close>: a prefix test when anchored, a containment test otherwise, folding case under
  the flag \<^verbatim>\<open>i\<close>. It rejects every pattern with another syntax character, as the host
  engine rejects \<^verbatim>\<open>(\<close>. \<open>sampleMinimatch\<close> compares a pattern without wildcards
  literally and lets \<^verbatim>\<open>dir/**\<close> match the paths below \<^verbatim>\<open>dir/\<close>.
\<close>

definition regexSyntaxChars :: string where
  "regexSyntaxChars = [CHR 0x5C] @ ''^$.*+?()[]{}|''"

definition sampleRegExp :: "string \<Rightarrow> string \<Rightarrow> (string \<Rightarrow> bool) option" where
  "sampleRegExp pat flags =
     (let anchored = startsWith pat ''^'';
          body = (if anchored then drop 1 pat else pat);
          fold = (if CHR ''i'' \<in> set flags then toLowerCase else (\<lambda>s. s))
      in if list_ex (\<lambda>c. c \<in> set regexSyntaxChars) body then None
         else Some (\<lambda>s. if anchored then startsWith (fold s) (fold body)
                         else indexOf (fold s) (fold body) 0 \<noteq> - 1))"

definition sampleMinimatch :: "string \<Rightarrow> string \<Rightarrow> bool" where
  "sampleMinimatch p pat =
     (let n = length pat
      in if 3 \<le> n \<and> drop (n - 3) pat = ''/**''
         then startsWith p (take (n - 2) pat) \<and> n - 2 < length p
         else p = pat)"

definition sampleHost :: Host where
  "sampleHost = \<lparr> minimatch = sampleMinimatch, RegExp = sampleRegExp \<rparr>"

text \<open>
  The sample vault: \<^verbatim>\<open>Stale/d.md\<close> exists but has no cache entry, \<^verbatim>\<open>Locked/e.md\<close>
  exists but cannot be read, and a path that is not listed does not exist.
\<close>

definition sampleVault :: Vault where
  "sampleVault =
     \<lparr> getAbstractFileByPath =
         (\<lambda>p. if p \<in> set [''Public/a.md'', ''Private/b.md'', ''Both/c.md'', ''Shared/doc.md'',
                            ''Stale/d.md'', ''Locked/e.md'']
               then Some (TFile p) else None),
       cachedRead =
         (\<lambda>f. case f of TFile p \<Rightarrow>
                 if p = ''Locked/e.md'' then None
                 else if p = ''Shared/doc.md'' then Some ''My PASSWORD is hidden''
                 else Some ''plain text'') \<rparr>"

definition sampleCache :: MetadataCache where
  "sampleCache =
     \<lparr> getFileCache =
         (\<lambda>f. case f of TFile p \<Rightarrow>
                 if p = ''Stale/d.md'' then None
                 else if p = ''Public/a.md''
                   then Some \<lparr> tags = Some [''#AI-Deny''], frontmatter_tags = None \<rparr>
                 else if p = ''Private/b.md''
                   then Some \<lparr> tags = None, frontmatter_tags = Some [''ai-allow''] \<rparr>
                 else if p = ''Both/c.md''
                   then Some \<lparr> tags = Some [''#ai-allow''], frontmatter_tags = Some [''#ai-deny''] \<rparr>
                 else Some \<lparr> tags = Some [''#draft'', ''#Internal''], frontmatter_tags = None \<rparr>) \<rparr>"

definition sampleApp :: App where
  "sampleApp = \<lparr> vault = sampleVault, metadataCache = sampleCache \<rparr>"

definition sampleSettings :: Settings where
  "sampleSettings =
     \<lparr> defaultPolicy = Deny, globalAllowTag = ''#ai-allow'', globalDenyTag = ''#ai-deny'' \<rparr>"

definition noGlobalTags :: Settings where
  "noGlobalTags = \<lparr> defaultPolicy = Allow, globalAllowTag = [], globalDenyTag = [] \<rparr>"

definition mkRule :: "FilterMode \<Rightarrow> string \<Rightarrow> bool \<Rightarrow> HttpMethod list option \<Rightarrow> FilterRule" where
  "mkRule m pat re ms =
     \<lparr> rule_id = ''test-rule'', mode = m, pattern = pat, isRegex = re, enabled = True,
       description = ''test'', methods = ms, regexFlags = None \<rparr>"

definition mkEngine :: "ParsedRules \<Rightarrow> FilterEngine" where
  "mkEngine rules = \<lparr> app = sampleApp, fileRules = Some rules \<rparr>"

definition noRules :: ParsedRules where
  "noRules = \<lparr> folder = [], name = [], tag = [], keyword = [] \<rparr>"

text \<open>Rule sets and rule files of the sample installation.\<close>

definition scopedRules :: ParsedRules where
  "scopedRules =
     noRules\<lparr> folder := [mkRule Allow ''Shared/**'' False (Some [GET])],
               name := [mkRule Deny ''doc.md'' False None] \<rparr>"

definition overrideRules :: ParsedRules where
  "overrideRules =
     noRules\<lparr> folder := [mkRule Allow ''Both/**'' False None,
                          mkRule Deny ''Private/**'' False None] \<rparr>"

definition scopedTagRules :: ParsedRules where
  "scopedTagRules =
     noRules\<lparr> tag := [mkRule Allow ''#public'' False (Some [GET])],
               keyword := [mkRule Allow ''plain'' False (Some [GET])] \<rparr>"

text \<open>
  Rules that stand before the first match: a disabled rule whose pattern matches and an
  enabled rule whose pattern does not.
\<close>

definition firstMatchPre :: "string \<Rightarrow> string \<Rightarrow> FilterRule list" where
  "firstMatchPre hit miss =
     [(mkRule Deny hit False None)\<lparr> enabled := False \<rparr>, mkRule Deny miss False None]"

definition brokenRule :: FilterRule where
  "brokenRule = mkRule Deny ''('' True None"

definition sampleRulesFile :: string where
  "sampleRulesFile =
     join [''# rules of the sample vault'',
           ''#!disabled deny  folder  Shared/**'',
           ''allow  folder  Shared/**  GET,PUT'',
           ''#!disabled allow keyword hidden''] [CHR 0x0A]"

text \<open>The entry of the second line of \<open>sampleRulesFile\<close>.\<close>

definition disabledEntry :: RuleEntry where
  "disabledEntry =
     \<lparr> rule = \<lparr> rule_id = ''rule-line-2'', mode = Deny, pattern = ''Shared/**'',
                isRegex = False, enabled = False, description = ''line 2'', methods = None,
                regexFlags = None \<rparr>,
       entryType = FolderKind, lineNumber = 1 \<rparr>"

text \<open>
  A rule the parser itself yields, from the line \<^verbatim>\<open>allow folder "a<TAB>b"\<close>: its
  pattern holds a tab and no space.
\<close>

definition tabRule :: FilterRule where
  "tabRule =
     \<lparr> rule_id = ''rule-line-1'', mode = Allow, pattern = ''a'' @ [CHR 0x09] @ ''b'',
       isRegex = False, enabled = True, description = ''line 1'', methods = None,
       regexFlags = None \<rparr>"

text \<open>A disabled, method-scoped regular expression with a space and a flag.\<close>

definition quotedRule :: FilterRule where
  "quotedRule =
     \<lparr> rule_id = ''rule-line-4'', mode = Deny, pattern = ''my password'', isRegex = True,
       enabled = False, description = ''line 4'', methods = Some [GET, POST],
       regexFlags = Some ''i'' \<rparr>"

text \<open>The rule of the folder matcher's own tests for the flag \<^verbatim>\<open>i\<close>.\<close>

definition flaggedRule :: "string \<Rightarrow> FilterRule" where
  "flaggedRule pat = (mkRule Deny pat True None)\<lparr> regexFlags := Some ''i'' \<rparr>"

section \<open>The method guard and the chain\<close>

lemma methodAllowed_None: "methodAllowed None m"
  by (simp add: methodAllowed_def)

lemma stageReturns_None [simp]: "stageReturns method None = None"
  by (simp add: stageReturns_def)

lemma stageReturns_unscoped:
  "matchedRule d = None \<Longrightarrow> stageReturns method (Some d) = Some d"
  by (simp add: stageReturns_def methodAllowed_None split: option.splits)

lemma stageReturns_mismatch:
  "m \<noteq> [] \<Longrightarrow> \<not> methodAllowed (matchedRule d) m \<Longrightarrow> stageReturns (Some m) (Some d) = None"
  by (simp add: stageReturns_def)

lemma stageReturns_method:
  "stageReturns (Some m) r = Some d \<Longrightarrow> m \<noteq> [] \<Longrightarrow> methodAllowed (matchedRule d) m"
  by (auto simp: stageReturns_def split: option.splits if_splits)

lemma checkGlobalTags_unscoped:
  "checkGlobalTags p mc v ga gd = Some d \<Longrightarrow> matchedRule d = None"
  by (auto simp: checkGlobalTags_def split: TagResult.splits if_splits)

lemma evaluateFile_cases:
  "evaluateFile h this p s method = d \<Longrightarrow>
     checkGlobalTags p (metadataCache (app this)) (vault (app this))
        (globalAllowTag s) (globalDenyTag s) = Some d
   \<or> d = defaultDecision s
   \<or> (\<exists>rules. fileRules this = Some rules \<and>
         (folderStage h rules p method = Some d \<or> nameStage h rules p method = Some d
          \<or> tagStage (app this) rules p method = Some d
          \<or> keywordStage h (app this) rules p method = Some d))"
  by (auto simp: evaluateFile_def split: option.splits)

lemma stage_method:
  assumes "m \<noteq> []"
  shows "folderStage h rules p (Some m) = Some d \<Longrightarrow> methodAllowed (matchedRule d) m"
    and "nameStage h rules p (Some m) = Some d \<Longrightarrow> methodAllowed (matchedRule d) m"
    and "tagStage a rules p (Some m) = Some d \<Longrightarrow> methodAllowed (matchedRule d) m"
    and "keywordStage h a rules p (Some m) = Some d \<Longrightarrow> methodAllowed (matchedRule d) m"
  using assms
  by (auto simp: folderStage_def nameStage_def tagStage_def keywordStage_def
           dest: stageReturns_method split: if_splits)

text \<open>Whatever the chain returns for a method is a decision that applies to that method.\<close>

lemma evaluateFile_method:
  assumes "m \<noteq> []"
  shows "methodAllowed (matchedRule (evaluateFile h this p s (Some m))) m"
proof -
  define d where "d = evaluateFile h this p s (Some m)"
  from evaluateFile_cases [OF d_def [symmetric]]
  show ?thesis unfolding d_def [symmetric]
    using assms
    by (auto simp: defaultDecision_def methodAllowed_None
             dest: checkGlobalTags_unscoped stage_method)
qed

lemma folderStage_cleared [simp]: "folderStage h (rules\<lparr>folder := []\<rparr>) p method = None"
  and nameStage_cleared [simp]: "nameStage h (rules\<lparr>name := []\<rparr>) p method = None"
  and tagStage_cleared [simp]: "tagStage a (rules\<lparr>tag := []\<rparr>) p method = None"
  and keywordStage_cleared [simp]: "keywordStage h a (rules\<lparr>keyword := []\<rparr>) p method = None"
  by (simp_all add: folderStage_def nameStage_def tagStage_def keywordStage_def)

lemma stages_other_fields [simp]:
  "folderStage h (rules\<lparr>name := ns\<rparr>) p method = folderStage h rules p method"
  "folderStage h (rules\<lparr>tag := ts\<rparr>) p method = folderStage h rules p method"
  "folderStage h (rules\<lparr>keyword := ks\<rparr>) p method = folderStage h rules p method"
  "nameStage h (rules\<lparr>folder := fs\<rparr>) p method = nameStage h rules p method"
  "nameStage h (rules\<lparr>tag := ts\<rparr>) p method = nameStage h rules p method"
  "nameStage h (rules\<lparr>keyword := ks\<rparr>) p method = nameStage h rules p method"
  "tagStage a (rules\<lparr>folder := fs\<rparr>) p method = tagStage a rules p method"
  "tagStage a (rules\<lparr>name := ns\<rparr>) p method = tagStage a rules p method"
  "tagStage a (rules\<lparr>keyword := ks\<rparr>) p method = tagStage a rules p method"
  "keywordStage h a (rules\<lparr>folder := fs\<rparr>) p method = keywordStage h a rules p method"
  "keywordStage h a (rules\<lparr>name := ns\<rparr>) p method = keywordStage h a rules p method"
  "keywordStage h a (rules\<lparr>tag := ts\<rparr>) p method = keywordStage h a rules p method"
  by (simp_all add: folderStage_def nameStage_def tagStage_def keywordStage_def)

lemma evaluateFile_stages:
  "fileRules this = Some rules \<Longrightarrow>
   evaluateFile h this p s method =
     (case checkGlobalTags p (metadataCache (app this)) (vault (app this))
             (globalAllowTag s) (globalDenyTag s) of
        Some g \<Rightarrow> g
      | None \<Rightarrow>
          (case folderStage h rules p method of Some d \<Rightarrow> d | None \<Rightarrow>
          (case nameStage h rules p method of Some d \<Rightarrow> d | None \<Rightarrow>
          (case tagStage (app this) rules p method of Some d \<Rightarrow> d | None \<Rightarrow>
          (case keywordStage h (app this) rules p method of Some d \<Rightarrow> d | None \<Rightarrow>
             defaultDecision s)))))"
  by (simp add: evaluateFile_def split: option.splits)

section \<open>The matcher loops find the first enabled rule that matches\<close>

lemma list_ex_eq_mem: "list_ex (\<lambda>t. t = x) xs = (x \<in> set xs)"
  by (induction xs) auto

lemma checkFolderFilter_find:
  "checkFolderFilter h p rules =
     map_option (ruleDecision ''Folder filter: '' '' by pattern '' Folder)
       (find (\<lambda>r. enabled r \<and> folderRuleMatches h p r) rules)"
  by (induction rules) (simp_all add: folderRuleMatches_def ruleDecision_def split: option.splits)

lemma documentNameLoop_find:
  "documentNameLoop h b rules =
     map_option (ruleDecision ''Document name filter: '' '' by pattern '' DocumentName)
       (find (\<lambda>r. enabled r \<and> folderRuleMatches h b r) rules)"
  by (induction rules) (simp_all add: folderRuleMatches_def ruleDecision_def split: option.splits)

lemma keywordLoop_find:
  "keywordLoop h c rules =
     map_option (ruleDecision ''Keyword filter: '' '' by pattern '' Keyword)
       (find (\<lambda>r. enabled r \<and> keywordRuleMatches h c r) rules)"
  by (induction rules) (simp_all add: keywordRuleMatches_def ruleDecision_def split: option.splits)

lemma tagLoop_find:
  "tagLoop ts rules =
     map_option (ruleDecision ''Tag filter: '' '' by tag '' Tag)
       (find (\<lambda>r. enabled r \<and> tagRuleMatches ts r) rules)"
  by (induction rules) (simp_all add: tagRuleMatches_def ruleDecision_def Let_def list_ex_eq_mem)

lemma find_first:
  "\<forall>x\<in>set pre. \<not> P x \<Longrightarrow> P r \<Longrightarrow> find P (pre @ r # post) = Some r"
  by (induction pre) simp_all

lemma find_skip:
  "\<not> P r \<Longrightarrow> find P (pre @ r # post) = find P (pre @ post)"
  by (induction pre) simp_all

lemma find_filter_enabled:
  "find (\<lambda>r. E r \<and> P r) (filter E rules) = find (\<lambda>r. E r \<and> P r) rules"
  by (induction rules) simp_all

lemma matchers_skip_disabled:
  "checkFolderFilter h p (filter enabled rs) = checkFolderFilter h p rs"
  "checkDocumentNameFilter h p (filter enabled rs) = checkDocumentNameFilter h p rs"
  "checkTagFilter p (filter enabled rs) mc v = checkTagFilter p rs mc v"
  "checkKeywordFilter h p (filter enabled rs) v = checkKeywordFilter h p rs v"
  by (simp_all add: checkFolderFilter_find checkDocumentNameFilter_def documentNameLoop_find
        checkTagFilter_def tagLoop_find checkKeywordFilter_def keywordLoop_find
        find_filter_enabled split: TagResult.splits option.splits)

lemma invalid_regex_no_match:
  "isRegex r \<Longrightarrow> RegExp h (pattern r) [] = None \<Longrightarrow> \<not> folderRuleMatches h subject r"
  "isRegex r \<Longrightarrow> RegExp h (pattern r) [] = None \<Longrightarrow> \<not> keywordRuleMatches h subject r"
  by (simp_all add: folderRuleMatches_def keywordRuleMatches_def)

lemma checkKeywordFilter_cong:
  "(\<And>c. keywordLoop h c rs = keywordLoop h c rs') \<Longrightarrow>
     checkKeywordFilter h p rs v = checkKeywordFilter h p rs' v"
  by (simp add: checkKeywordFilter_def split: option.splits)

lemma folderStage_cong:
  "checkFolderFilter h p (folder rules) = checkFolderFilter h p fs \<Longrightarrow>
     folderStage h (rules\<lparr>folder := fs\<rparr>) p method = folderStage h rules p method"
  by (cases fs; cases "folder rules") (simp_all add: folderStage_def)

lemma nameStage_cong:
  "checkDocumentNameFilter h p (name rules) = checkDocumentNameFilter h p ns \<Longrightarrow>
     nameStage h (rules\<lparr>name := ns\<rparr>) p method = nameStage h rules p method"
  by (cases ns; cases "name rules") (simp_all add: nameStage_def checkDocumentNameFilter_def)

lemma keywordStage_cong:
  "checkKeywordFilter h p (keyword rules) (vault a) = checkKeywordFilter h p ks (vault a) \<Longrightarrow>
   (keyword rules = [] \<longleftrightarrow> ks = []) \<Longrightarrow>
     keywordStage h a (rules\<lparr>keyword := ks\<rparr>) p method = keywordStage h a rules p method"
  by (simp add: keywordStage_def)

section \<open>Failing closed\<close>

lemma checkTagFilter_unavailable:
  "collectFileTags p mc v = CacheUnavailable \<Longrightarrow> checkTagFilter p rs mc v = Some tagUnavailableDecision"
  by (simp add: checkTagFilter_def tagUnavailableDecision_def)

lemma checkGlobalTags_unavailable:
  "collectFileTags p mc v = CacheUnavailable \<Longrightarrow>
     checkGlobalTags p mc v ga gd
       = (if gd \<noteq> [] \<or> ga \<noteq> [] then Some globalUnavailableDecision else None)"
  by (simp add: checkGlobalTags_def globalUnavailableDecision_def)

lemma checkKeywordFilter_read_error:
  "getAbstractFileByPath v p = Some f \<Longrightarrow> cachedRead v f = None \<Longrightarrow>
     checkKeywordFilter h p rs v = Some readErrorDecision"
  by (simp add: checkKeywordFilter_def readErrorDecision_def)

lemma not_found_no_opinion:
  assumes "getAbstractFileByPath v p = None"
  shows "collectFileTags p mc v = FileNotFound"
    and "checkGlobalTags p mc v ga gd = None"
    and "checkTagFilter p rs mc v = None"
    and "checkKeywordFilter h p rs v = None"
  using assms
  by (simp_all add: collectFileTags_def checkGlobalTags_def checkTagFilter_def checkKeywordFilter_def)

lemma tagStage_unavailable:
  "collectFileTags p (metadataCache a) (vault a) = CacheUnavailable \<Longrightarrow> tag rules \<noteq> [] \<Longrightarrow>
     tagStage a rules p method = Some tagUnavailableDecision"
  by (simp add: tagStage_def checkTagFilter_unavailable stageReturns_unscoped tagUnavailableDecision_def)

lemma keywordStage_read_error:
  "getAbstractFileByPath (vault a) p = Some f \<Longrightarrow> cachedRead (vault a) f = None \<Longrightarrow>
   keyword rules \<noteq> [] \<Longrightarrow>
     keywordStage h a rules p method = Some readErrorDecision"
  by (simp add: keywordStage_def checkKeywordFilter_read_error stageReturns_unscoped
        readErrorDecision_def)

lemma fail_closed_reasons:
  "indexOf (reason tagUnavailableDecision) ''unavailable'' 0 \<noteq> - 1"
  "indexOf (reason globalUnavailableDecision) ''unavailable'' 0 \<noteq> - 1"
  "reason readErrorDecision \<noteq> reason tagUnavailableDecision"
  "reason readErrorDecision \<noteq> reason globalUnavailableDecision"
  by (simp_all add: tagUnavailableDecision_def globalUnavailableDecision_def readErrorDecision_def
       indexOf_def startsWith_def emDash_def)

lemma fail_closed_unscoped:
  "matchedRule globalUnavailableDecision = None"
  "matchedRule tagUnavailableDecision = None"
  "matchedRule readErrorDecision = None"
  "\<not> allowed globalUnavailableDecision"
  "\<not> allowed tagUnavailableDecision"
  "\<not> allowed readErrorDecision"
  by (simp_all add: tagUnavailableDecision_def globalUnavailableDecision_def readErrorDecision_def)

section \<open>What the parser builds\<close>

lemma trim_Nil [simp]: "trim [] = []"
  by (simp add: trim_def)

lemma parseRuleLine_fields:
  assumes "parseRuleLine line i = Some e"
  shows "lineNumber e = i" and "enabled (rule e) = (\<not> startsWith line DISABLED_PREFIX)"
  using assms
  by (auto simp: parseRuleLine_def Let_def split: option.splits prod.splits if_splits)

lemma lineEntry_fields:
  assumes "lineEntry l i = Some e"
  shows "lineNumber e = i" and "enabled (rule e) = (\<not> startsWith (trim l) DISABLED_PREFIX)"
  using assms parseRuleLine_fields [of "trim l" i e]
  by (auto simp: lineEntry_def Let_def split: if_splits)

lemma parseLines_entries:
  "entries (parseLines ls i acc) = entries acc @ lineEntries ls i"
  by (induction ls arbitrary: i acc) (auto simp: lineEntry_def Let_def split: option.splits)

lemma activeRules_append [simp]:
  "activeRules k (xs @ ys) = activeRules k xs @ activeRules k ys"
  by (simp add: activeRules_def)

lemma activeRules_Nil [simp]: "activeRules k [] = []"
  by (simp add: activeRules_def)

lemma pushRule_fields:
  "folder (pushRule k r g) = folder g @ (if k = FolderKind then [r] else [])"
  "name (pushRule k r g) = name g @ (if k = NameKind then [r] else [])"
  "tag (pushRule k r g) = tag g @ (if k = TagKind then [r] else [])"
  "keyword (pushRule k r g) = keyword g @ (if k = KeywordKind then [r] else [])"
  by (cases k; simp)+

lemma parseLines_grouped:
  "folder (grouped (parseLines ls i acc)) = folder (grouped acc) @ activeRules FolderKind (lineEntries ls i)
 \<and> name (grouped (parseLines ls i acc)) = name (grouped acc) @ activeRules NameKind (lineEntries ls i)
 \<and> tag (grouped (parseLines ls i acc)) = tag (grouped acc) @ activeRules TagKind (lineEntries ls i)
 \<and> keyword (grouped (parseLines ls i acc))
      = keyword (grouped acc) @ activeRules KeywordKind (lineEntries ls i)"
proof (induction ls arbitrary: i acc)
  case Nil
  show ?case by simp
next
  case (Cons l ls)
  show ?case
  proof (cases "lineEntry l i")
    case None
    then have "parseLines (l # ls) i acc = parseLines ls (Suc i) acc"
      by (auto simp: lineEntry_def Let_def split: if_splits)
    with None Cons [of "Suc i" acc] show ?thesis by simp
  next
    case (Some e)
    let ?acc = "\<lparr> grouped = (if enabled (rule e) then pushRule (entryType e) (rule e) (grouped acc)
                                else grouped acc),
                    entries = entries acc @ [e] \<rparr>"
    from Some have "parseLines (l # ls) i acc = parseLines ls (Suc i) ?acc"
      by (auto simp: lineEntry_def Let_def split: if_splits)
    with Some Cons [of "Suc i" ?acc] show ?thesis
      by (simp add: pushRule_fields activeRules_def)
  qed
qed

lemma parseRulesFile_entries:
  "entries (parseRulesFile content) = lineEntries (split content (CHR 0x0A)) 0"
  by (simp add: parseRulesFile_def parseLines_entries)

text \<open>The grouped rules are the enabled entries, kind by kind, in file order.\<close>

lemma parseRulesFile_grouped:
  "grouped (parseRulesFile content) =
     \<lparr> folder = activeRules FolderKind (entries (parseRulesFile content)),
       name = activeRules NameKind (entries (parseRulesFile content)),
       tag = activeRules TagKind (entries (parseRulesFile content)),
       keyword = activeRules KeywordKind (entries (parseRulesFile content)) \<rparr>"
  using parseLines_grouped [of "split content (CHR 0x0A)" 0
      "\<lparr> grouped = \<lparr> folder = [], name = [], tag = [], keyword = [] \<rparr>, entries = [] \<rparr>"]
  by (intro ParsedRules.equality) (simp_all add: parseRulesFile_def parseLines_entries)

lemma activeRules_enabled: "r \<in> set (activeRules k es) \<Longrightarrow> enabled r"
  by (auto simp: activeRules_def)

lemma lineEntries_nth:
  "i < length ls \<Longrightarrow> lineEntry (ls ! i) (k + i) = Some e \<Longrightarrow> e \<in> set (lineEntries ls k)"
proof (induction ls arbitrary: i k)
  case Nil
  then show ?case by simp
next
  case (Cons l ls)
  show ?case
  proof (cases i)
    case 0
    with Cons.prems show ?thesis by simp
  next
    case (Suc j)
    with Cons.prems Cons.IH [of j "Suc k"] show ?thesis by simp
  qed
qed

lemma lineEntries_blank:
  "lineEntries (map blankDisabled ls) i = filter (\<lambda>e. enabled (rule e)) (lineEntries ls i)"
proof (induction ls arbitrary: i)
  case Nil
  show ?case by simp
next
  case (Cons l ls)
  show ?case
  proof (cases "startsWith (trim l) DISABLED_PREFIX")
    case True
    then have "lineEntry (blankDisabled l) i = None"
      by (simp add: blankDisabled_def lineEntry_def)
    moreover have "\<And>e. lineEntry l i = Some e \<Longrightarrow> \<not> enabled (rule e)"
      using True lineEntry_fields(2) by blast
    ultimately show ?thesis using Cons [of "Suc i"]
      by (simp split: option.splits)
  next
    case False
    then have "blankDisabled l = l" by (simp add: blankDisabled_def)
    moreover have "\<And>e. lineEntry l i = Some e \<Longrightarrow> enabled (rule e)"
      using False lineEntry_fields(2) by blast
    ultimately show ?thesis using Cons [of "Suc i"]
      by (simp split: option.splits)
  qed
qed

lemma activeRules_filter_enabled:
  "activeRules k (filter (\<lambda>e. enabled (rule e)) es) = activeRules k es"
  by (induction es) (simp_all add: activeRules_def)

lemma split_nonempty: "split s c \<noteq> []"
  by (induction s) (auto split: list.splits)

lemma split_no_sep: "x \<in> set (split s c) \<Longrightarrow> c \<notin> set x"
  by (induction s arbitrary: x) (auto split: if_splits list.splits)

lemma split_none: "c \<notin> set x \<Longrightarrow> split x c = [x]"
  by (induction x) auto

lemma split_append: "c \<notin> set x \<Longrightarrow> split (x @ c # rest) c = x # split rest c"
  by (induction x) auto

lemma split_join:
  "ls \<noteq> [] \<Longrightarrow> \<forall>x\<in>set ls. c \<notin> set x \<Longrightarrow> split (join ls [c]) c = ls"
  by (induction ls "[c]" rule: join.induct) (simp_all add: split_none split_append)

lemma blankDisabled_no_sep: "c \<notin> set l \<Longrightarrow> c \<notin> set (blankDisabled l)"
  by (simp add: blankDisabled_def)

lemma split_withoutDisabledLines:
  "split (withoutDisabledLines content) (CHR 0x0A) = map blankDisabled (split content (CHR 0x0A))"
  unfolding withoutDisabledLines_def
  by (rule split_join) (auto simp: split_nonempty dest: split_no_sep blankDisabled_no_sep)

lemma grouped_withoutDisabledLines:
  "grouped (parseRulesFile (withoutDisabledLines content)) = grouped (parseRulesFile content)"
  by (simp add: parseRulesFile_grouped [of content]
        parseRulesFile_grouped [of "withoutDisabledLines content"]
        parseRulesFile_entries split_withoutDisabledLines lineEntries_blank
        activeRules_filter_enabled)

section \<open>The claims\<close>

text \<open>
  \<^bold>\<open>C1.\<close> When the tags of the candidate can be collected, a configured global deny tag
  among them makes \<^verbatim>\<open>evaluateFile\<close> deny, and a configured global allow tag among them,
  with the deny tag not among them, makes it allow. The engine's rules, the method and the
  default policy are arbitrary, so no folder, name, tag or keyword rule changes the
  verdict; with both tags present the first conjunct applies and the verdict is deny.
  A tag is configured when its setting is not the empty string, and it is compared in
  lower case with the collected tags, as \<^verbatim>\<open>checkGlobalTags\<close> does.
\<close>

theorem global_tags_override:
  assumes "collectFileTags filePath (metadataCache (app this)) (vault (app this)) = TagsFound ts"
  shows "(globalDenyTag settings \<noteq> [] \<and> toLowerCase (globalDenyTag settings) \<in> set ts
            \<longrightarrow> \<not> allowed (evaluateFile h this filePath settings meth))
       \<and> (globalAllowTag settings \<noteq> [] \<and> toLowerCase (globalAllowTag settings) \<in> set ts
            \<and> \<not> (globalDenyTag settings \<noteq> [] \<and> toLowerCase (globalDenyTag settings) \<in> set ts)
            \<longrightarrow> allowed (evaluateFile h this filePath settings meth))"
  using assms by (auto simp: evaluateFile_def checkGlobalTags_def)

text \<open>The statement at the sample installation.\<close>

theorem global_tags_override_witness:
  "collectFileTags ''Both/c.md'' (metadataCache (app (mkEngine overrideRules)))
      (vault (app (mkEngine overrideRules))) = TagsFound [''#ai-allow'', ''#ai-deny'']
 \<and> \<not> allowed (evaluateFile sampleHost (mkEngine overrideRules) ''Both/c.md'' sampleSettings
                 (Some ''GET''))
 \<and> collectFileTags ''Private/b.md'' (metadataCache (app (mkEngine overrideRules)))
      (vault (app (mkEngine overrideRules))) = TagsFound [''#ai-allow'']
 \<and> allowed (evaluateFile sampleHost (mkEngine overrideRules) ''Private/b.md'' sampleSettings
               (Some ''GET''))"
proof -
  have both: "collectFileTags ''Both/c.md'' (metadataCache (app (mkEngine overrideRules)))
      (vault (app (mkEngine overrideRules))) = TagsFound [''#ai-allow'', ''#ai-deny'']"
    by code_simp
  have priv: "collectFileTags ''Private/b.md'' (metadataCache (app (mkEngine overrideRules)))
      (vault (app (mkEngine overrideRules))) = TagsFound [''#ai-allow'']"
    by code_simp
  have deny: "globalDenyTag sampleSettings \<noteq> []
      \<and> toLowerCase (globalDenyTag sampleSettings) \<in> set [''#ai-allow'', ''#ai-deny'']"
    by code_simp
  have allow: "globalAllowTag sampleSettings \<noteq> []
      \<and> toLowerCase (globalAllowTag sampleSettings) \<in> set [''#ai-allow'']
      \<and> \<not> (globalDenyTag sampleSettings \<noteq> []
            \<and> toLowerCase (globalDenyTag sampleSettings) \<in> set [''#ai-allow''])"
    by code_simp
  from global_tags_override [OF both, where settings = sampleSettings and h = sampleHost
      and meth = "Some ''GET''"] deny
  have d: "\<not> allowed (evaluateFile sampleHost (mkEngine overrideRules) ''Both/c.md''
                        sampleSettings (Some ''GET''))"
    by blast
  from global_tags_override [OF priv, where settings = sampleSettings and h = sampleHost
      and meth = "Some ''GET''"] allow
  have a: "allowed (evaluateFile sampleHost (mkEngine overrideRules) ''Private/b.md''
                      sampleSettings (Some ''GET''))"
    by blast
  from both priv d a show ?thesis by blast
qed

text \<open>
  \<^bold>\<open>C2.\<close> For a path whose file exists but has no cache entry, \<^verbatim>\<open>checkGlobalTags\<close>
  denies as soon as one global tag is configured, and then \<^verbatim>\<open>evaluateFile\<close> returns
  that denial whatever the rules are; \<^verbatim>\<open>checkTagFilter\<close> denies, and so does the tag
  stage of the engine whenever tag rules are configured, for every method. For a file
  whose read is rejected \<^verbatim>\<open>checkKeywordFilter\<close> denies, and so does the keyword stage
  whenever keyword rules are configured. The two tag reasons contain the word
  \<^verbatim>\<open>unavailable\<close>, and the reason of the read failure differs from both. For a path with
  no file the global check, both matchers and both stages return nothing, so the chain
  goes on to the stages that follow. In the chain the tag and keyword stages are reached
  when no earlier stage has returned: when the global check, the folder stage and the name
  stage return nothing, \<^verbatim>\<open>evaluateFile\<close> returns the tag denial for a file without
  cache entry once tag rules are configured, and, the tag stage returning nothing, the
  read-error denial for a file whose read is rejected once keyword rules are configured.
\<close>

theorem unavailable_data_fails_closed:
  "(collectFileTags p (metadataCache a) (vault a) = CacheUnavailable \<longrightarrow>
      (gd \<noteq> [] \<or> ga \<noteq> [] \<longrightarrow>
         checkGlobalTags p (metadataCache a) (vault a) ga gd = Some globalUnavailableDecision
         \<and> (app this = a \<and> globalAllowTag s = ga \<and> globalDenyTag s = gd
              \<longrightarrow> evaluateFile h this p s meth = globalUnavailableDecision))
      \<and> checkTagFilter p rs (metadataCache a) (vault a) = Some tagUnavailableDecision
      \<and> (tag rules \<noteq> [] \<longrightarrow> tagStage a rules p meth = Some tagUnavailableDecision))
 \<and> (getAbstractFileByPath (vault a) p = Some f \<and> cachedRead (vault a) f = None \<longrightarrow>
      checkKeywordFilter h p rs (vault a) = Some readErrorDecision
      \<and> (keyword rules \<noteq> [] \<longrightarrow> keywordStage h a rules p meth = Some readErrorDecision))
 \<and> (getAbstractFileByPath (vault a) p = None \<longrightarrow>
      checkGlobalTags p (metadataCache a) (vault a) ga gd = None
      \<and> checkTagFilter p rs (metadataCache a) (vault a) = None
      \<and> checkKeywordFilter h p rs (vault a) = None
      \<and> tagStage a rules p meth = None
      \<and> keywordStage h a rules p meth = None)
 \<and> (app this = a \<and> fileRules this = Some rules
      \<and> checkGlobalTags p (metadataCache a) (vault a) (globalAllowTag s) (globalDenyTag s) = None
      \<and> folderStage h rules p meth = None \<and> nameStage h rules p meth = None
      \<longrightarrow>
        (collectFileTags p (metadataCache a) (vault a) = CacheUnavailable \<and> tag rules \<noteq> []
           \<longrightarrow> evaluateFile h this p s meth = tagUnavailableDecision)
      \<and> (tagStage a rules p meth = None \<and> getAbstractFileByPath (vault a) p = Some f
           \<and> cachedRead (vault a) f = None \<and> keyword rules \<noteq> []
           \<longrightarrow> evaluateFile h this p s meth = readErrorDecision))
 \<and> \<not> allowed globalUnavailableDecision \<and> \<not> allowed tagUnavailableDecision
 \<and> \<not> allowed readErrorDecision
 \<and> indexOf (reason globalUnavailableDecision) ''unavailable'' 0 \<noteq> - 1
 \<and> indexOf (reason tagUnavailableDecision) ''unavailable'' 0 \<noteq> - 1
 \<and> reason readErrorDecision \<noteq> reason globalUnavailableDecision
 \<and> reason readErrorDecision \<noteq> reason tagUnavailableDecision"
proof -
  have g: "evaluateFile h this p s meth = globalUnavailableDecision"
    if "collectFileTags p (metadataCache a) (vault a) = CacheUnavailable" "gd \<noteq> [] \<or> ga \<noteq> []"
       "app this = a" "globalAllowTag s = ga" "globalDenyTag s = gd"
    using that by (simp add: evaluateFile_def checkGlobalTags_unavailable)
  have nf: "tagStage a rules p meth = None \<and> keywordStage h a rules p meth = None"
    if "getAbstractFileByPath (vault a) p = None"
    using that by (simp add: tagStage_def keywordStage_def not_found_no_opinion)
  have ch: "(collectFileTags p (metadataCache a) (vault a) = CacheUnavailable \<and> tag rules \<noteq> []
           \<longrightarrow> evaluateFile h this p s meth = tagUnavailableDecision)
      \<and> (tagStage a rules p meth = None \<and> getAbstractFileByPath (vault a) p = Some f
           \<and> cachedRead (vault a) f = None \<and> keyword rules \<noteq> []
           \<longrightarrow> evaluateFile h this p s meth = readErrorDecision)"
    if "app this = a \<and> fileRules this = Some rules
      \<and> checkGlobalTags p (metadataCache a) (vault a) (globalAllowTag s) (globalDenyTag s) = None
      \<and> folderStage h rules p meth = None \<and> nameStage h rules p meth = None"
    using that
    by (auto simp: evaluateFile_stages tagStage_unavailable keywordStage_read_error)
  show ?thesis
    using g nf ch fail_closed_reasons fail_closed_unscoped
    by (simp add: checkTagFilter_unavailable checkGlobalTags_unavailable tagStage_unavailable
          checkKeywordFilter_read_error keywordStage_read_error not_found_no_opinion)
qed

text \<open>The statement at the sample installation.\<close>

theorem unavailable_data_fails_closed_witness:
  "collectFileTags ''Stale/d.md'' (metadataCache sampleApp) (vault sampleApp) = CacheUnavailable
 \<and> evaluateFile sampleHost (mkEngine overrideRules) ''Stale/d.md'' sampleSettings (Some ''GET'')
     = globalUnavailableDecision
 \<and> tagStage sampleApp scopedTagRules ''Stale/d.md'' (Some ''PUT'') = Some tagUnavailableDecision
 \<and> evaluateFile sampleHost (mkEngine scopedTagRules) ''Stale/d.md'' noGlobalTags (Some ''GET'')
     = tagUnavailableDecision
 \<and> getAbstractFileByPath (vault sampleApp) ''Locked/e.md'' = Some (TFile ''Locked/e.md'')
 \<and> cachedRead (vault sampleApp) (TFile ''Locked/e.md'') = None
 \<and> keywordStage sampleHost sampleApp scopedTagRules ''Locked/e.md'' (Some ''PUT'')
     = Some readErrorDecision
 \<and> getAbstractFileByPath (vault sampleApp) ''New/note.md'' = None
 \<and> tagStage sampleApp scopedTagRules ''New/note.md'' (Some ''POST'') = None
 \<and> keywordStage sampleHost sampleApp scopedTagRules ''New/note.md'' (Some ''POST'') = None
 \<and> checkGlobalTags ''New/note.md'' (metadataCache sampleApp) (vault sampleApp)
      ''#ai-allow'' ''#ai-deny'' = None"
proof -
  have u: "collectFileTags ''Stale/d.md'' (metadataCache sampleApp) (vault sampleApp) = CacheUnavailable"
    by code_simp
  have c: "''#ai-deny'' \<noteq> [] \<or> ''#ai-allow'' \<noteq> []" by simp
  have e: "app (mkEngine overrideRules) = sampleApp \<and> globalAllowTag sampleSettings = ''#ai-allow''
             \<and> globalDenyTag sampleSettings = ''#ai-deny''"
    by (simp add: mkEngine_def sampleSettings_def)
  have t: "tag scopedTagRules \<noteq> []" and kw: "keyword scopedTagRules \<noteq> []" by code_simp+
  have l: "getAbstractFileByPath (vault sampleApp) ''Locked/e.md'' = Some (TFile ''Locked/e.md'')
             \<and> cachedRead (vault sampleApp) (TFile ''Locked/e.md'') = None"
    by code_simp
  have n: "getAbstractFileByPath (vault sampleApp) ''New/note.md'' = None" by code_simp
  note th = unavailable_data_fails_closed [where a = sampleApp and h = sampleHost
      and rules = scopedTagRules and ga = "''#ai-allow''" and gd = "''#ai-deny''"]
  from u c e t th [where p = "''Stale/d.md''" and this = "mkEngine overrideRules"
      and s = sampleSettings and meth = "Some ''GET''"]
  have 1: "evaluateFile sampleHost (mkEngine overrideRules) ''Stale/d.md'' sampleSettings (Some ''GET'')
     = globalUnavailableDecision"
    by blast
  from u t th [where p = "''Stale/d.md''" and meth = "Some ''PUT''"]
  have 2: "tagStage sampleApp scopedTagRules ''Stale/d.md'' (Some ''PUT'') = Some tagUnavailableDecision"
    by blast
  have r0: "app (mkEngine scopedTagRules) = sampleApp
         \<and> fileRules (mkEngine scopedTagRules) = Some scopedTagRules"
    by (simp add: mkEngine_def)
  have r: "checkGlobalTags ''Stale/d.md'' (metadataCache sampleApp) (vault sampleApp)
              (globalAllowTag noGlobalTags) (globalDenyTag noGlobalTags) = None
         \<and> folderStage sampleHost scopedTagRules ''Stale/d.md'' (Some ''GET'') = None
         \<and> nameStage sampleHost scopedTagRules ''Stale/d.md'' (Some ''GET'') = None"
    by code_simp
  from u t r0 r th [where p = "''Stale/d.md''" and this = "mkEngine scopedTagRules"
      and s = noGlobalTags and meth = "Some ''GET''"]
  have 7: "evaluateFile sampleHost (mkEngine scopedTagRules) ''Stale/d.md'' noGlobalTags (Some ''GET'')
     = tagUnavailableDecision"
    by blast
  from l kw th [where p = "''Locked/e.md''" and meth = "Some ''PUT''" and f = "TFile ''Locked/e.md''"]
  have 3: "keywordStage sampleHost sampleApp scopedTagRules ''Locked/e.md'' (Some ''PUT'')
     = Some readErrorDecision"
    by blast
  from n th [where p = "''New/note.md''" and meth = "Some ''POST''"]
  have 4: "tagStage sampleApp scopedTagRules ''New/note.md'' (Some ''POST'') = None"
    and 5: "keywordStage sampleHost sampleApp scopedTagRules ''New/note.md'' (Some ''POST'') = None"
    and 6: "checkGlobalTags ''New/note.md'' (metadataCache sampleApp) (vault sampleApp)
      ''#ai-allow'' ''#ai-deny'' = None"
    by blast+
  note l1 = l [THEN conjunct1] and l2 = l [THEN conjunct2]
  show ?thesis by (intro conjI; fact)
qed

text \<open>
  \<^bold>\<open>C3.\<close> Let the request carry a method. If the folder matcher returns a decision whose
  rule does not list the method, \<^verbatim>\<open>evaluateFile\<close> returns what it returns for the same
  rules without any folder rule: the chain goes on with the name, tag and keyword stages
  and reaches the default policy only when none of them returns. The decision returned is
  never the one of the mismatched rule. The same holds for a mismatched name, tag and
  keyword decision. A method is present when it is given and not the empty string.
\<close>

theorem method_mismatch_falls_through:
  assumes "fileRules this = Some rules" and "m \<noteq> []"
  shows "(\<forall>d. checkFolderFilter h p (folder rules) = Some d \<and> \<not> methodAllowed (matchedRule d) m
            \<longrightarrow> evaluateFile h this p s (Some m)
                  = evaluateFile h (this\<lparr>fileRules := Some (rules\<lparr>folder := []\<rparr>)\<rparr>) p s (Some m)
                \<and> evaluateFile h this p s (Some m) \<noteq> d)
       \<and> (\<forall>d. checkDocumentNameFilter h p (name rules) = Some d
               \<and> \<not> methodAllowed (matchedRule d) m
            \<longrightarrow> evaluateFile h this p s (Some m)
                  = evaluateFile h (this\<lparr>fileRules := Some (rules\<lparr>name := []\<rparr>)\<rparr>) p s (Some m)
                \<and> evaluateFile h this p s (Some m) \<noteq> d)
       \<and> (\<forall>d. checkTagFilter p (tag rules) (metadataCache (app this)) (vault (app this)) = Some d
               \<and> \<not> methodAllowed (matchedRule d) m
            \<longrightarrow> evaluateFile h this p s (Some m)
                  = evaluateFile h (this\<lparr>fileRules := Some (rules\<lparr>tag := []\<rparr>)\<rparr>) p s (Some m)
                \<and> evaluateFile h this p s (Some m) \<noteq> d)
       \<and> (\<forall>d. checkKeywordFilter h p (keyword rules) (vault (app this)) = Some d
               \<and> \<not> methodAllowed (matchedRule d) m
            \<longrightarrow> evaluateFile h this p s (Some m)
                  = evaluateFile h (this\<lparr>fileRules := Some (rules\<lparr>keyword := []\<rparr>)\<rparr>) p s (Some m)
                \<and> evaluateFile h this p s (Some m) \<noteq> d)"
proof -
  have neq: "\<And>d. \<not> methodAllowed (matchedRule d) m \<Longrightarrow> evaluateFile h this p s (Some m) \<noteq> d"
    using evaluateFile_method [OF assms(2), of h this p s] by auto
  have f: "\<And>d. checkFolderFilter h p (folder rules) = Some d \<Longrightarrow> \<not> methodAllowed (matchedRule d) m
             \<Longrightarrow> folderStage h rules p (Some m) = None"
    using assms(2) by (simp add: folderStage_def stageReturns_mismatch)
  have n: "\<And>d. checkDocumentNameFilter h p (name rules) = Some d
             \<Longrightarrow> \<not> methodAllowed (matchedRule d) m \<Longrightarrow> nameStage h rules p (Some m) = None"
    using assms(2) by (simp add: nameStage_def stageReturns_mismatch)
  have t: "\<And>d. checkTagFilter p (tag rules) (metadataCache (app this)) (vault (app this)) = Some d
             \<Longrightarrow> \<not> methodAllowed (matchedRule d) m \<Longrightarrow> tagStage (app this) rules p (Some m) = None"
    using assms(2) by (simp add: tagStage_def stageReturns_mismatch)
  have k: "\<And>d. checkKeywordFilter h p (keyword rules) (vault (app this)) = Some d
             \<Longrightarrow> \<not> methodAllowed (matchedRule d) m
             \<Longrightarrow> keywordStage h (app this) rules p (Some m) = None"
    using assms(2) by (simp add: keywordStage_def stageReturns_mismatch)
  show ?thesis
    using assms(1) neq
    by (auto simp: evaluateFile_stages f n t k split: option.splits)
qed

text \<open>The statement at the sample installation.\<close>

theorem method_mismatch_falls_through_witness:
  "fileRules (mkEngine scopedRules) = Some scopedRules
 \<and> ''PUT'' \<noteq> []
 \<and> checkFolderFilter sampleHost ''Shared/doc.md'' (folder scopedRules)
     = Some (ruleDecision ''Folder filter: '' '' by pattern '' Folder
               (mkRule Allow ''Shared/**'' False (Some [GET])))
 \<and> \<not> methodAllowed (Some (mkRule Allow ''Shared/**'' False (Some [GET]))) ''PUT''
 \<and> evaluateFile sampleHost (mkEngine scopedRules) ''Shared/doc.md'' noGlobalTags (Some ''PUT'')
     = evaluateFile sampleHost ((mkEngine scopedRules)\<lparr>fileRules := Some (scopedRules\<lparr>folder := []\<rparr>)\<rparr>)
         ''Shared/doc.md'' noGlobalTags (Some ''PUT'')
 \<and> evaluateFile sampleHost (mkEngine scopedRules) ''Shared/doc.md'' noGlobalTags (Some ''PUT'')
     \<noteq> ruleDecision ''Folder filter: '' '' by pattern '' Folder
           (mkRule Allow ''Shared/**'' False (Some [GET]))
 \<and> evaluateFile sampleHost (mkEngine scopedRules) ''Shared/doc.md'' noGlobalTags (Some ''PUT'')
     = ruleDecision ''Document name filter: '' '' by pattern '' DocumentName
         (mkRule Deny ''doc.md'' False None)
 \<and> allowed (defaultDecision noGlobalTags)"
proof -
  let ?d = "ruleDecision ''Folder filter: '' '' by pattern '' Folder
               (mkRule Allow ''Shared/**'' False (Some [GET]))"
  have r: "fileRules (mkEngine scopedRules) = Some scopedRules" by (simp add: mkEngine_def)
  have m: "''PUT'' \<noteq> []" by simp
  have c: "checkFolderFilter sampleHost ''Shared/doc.md'' (folder scopedRules) = Some ?d"
    by code_simp
  have na: "\<not> methodAllowed (Some (mkRule Allow ''Shared/**'' False (Some [GET]))) ''PUT''"
    by code_simp
  have na': "\<not> methodAllowed (matchedRule ?d) ''PUT''"
    using na by (simp add: ruleDecision_def)
  have e: "evaluateFile sampleHost (mkEngine scopedRules) ''Shared/doc.md'' noGlobalTags (Some ''PUT'')
     = ruleDecision ''Document name filter: '' '' by pattern '' DocumentName
         (mkRule Deny ''doc.md'' False None)"
    by code_simp
  have dflt: "allowed (defaultDecision noGlobalTags)" by code_simp
  from method_mismatch_falls_through [OF r m, of sampleHost "''Shared/doc.md''" noGlobalTags]
  have "\<forall>d. checkFolderFilter sampleHost ''Shared/doc.md'' (folder scopedRules) = Some d
            \<and> \<not> methodAllowed (matchedRule d) ''PUT''
        \<longrightarrow> evaluateFile sampleHost (mkEngine scopedRules) ''Shared/doc.md'' noGlobalTags (Some ''PUT'')
              = evaluateFile sampleHost
                  ((mkEngine scopedRules)\<lparr>fileRules := Some (scopedRules\<lparr>folder := []\<rparr>)\<rparr>)
                  ''Shared/doc.md'' noGlobalTags (Some ''PUT'')
            \<and> evaluateFile sampleHost (mkEngine scopedRules) ''Shared/doc.md'' noGlobalTags
                 (Some ''PUT'') \<noteq> d"
    by (rule conjunct1)
  with c na' have x:
    "evaluateFile sampleHost (mkEngine scopedRules) ''Shared/doc.md'' noGlobalTags (Some ''PUT'')
       = evaluateFile sampleHost
           ((mkEngine scopedRules)\<lparr>fileRules := Some (scopedRules\<lparr>folder := []\<rparr>)\<rparr>)
           ''Shared/doc.md'' noGlobalTags (Some ''PUT'')
     \<and> evaluateFile sampleHost (mkEngine scopedRules) ''Shared/doc.md'' noGlobalTags
          (Some ''PUT'') \<noteq> ?d"
    by blast
  note x1 = x [THEN conjunct1] and x2 = x [THEN conjunct2]
  show ?thesis by (intro conjI; fact)
qed

text \<open>
  \<^bold>\<open>C4.\<close> The round trip through \<^verbatim>\<open>serializeRule\<close> and the parser at a rule the parser
  itself yields. The line \<^verbatim>\<open>allow folder "a<TAB>b"\<close> parses to \<open>tabRule\<close>, whose pattern
  holds a tab and no space. \<^verbatim>\<open>serializeRule\<close> quotes a pattern only when it contains a
  space character, so it writes this pattern bare, and the parser, which splits on any
  white space, reads the line back as a rule with the pattern \<^verbatim>\<open>a\<close>.
\<close>

theorem round_trip_fails_on_tab_pattern:
  "parseRuleLine (''allow folder '' @ [CHR 0x22] @ ''a'' @ [CHR 0x09] @ ''b'' @ [CHR 0x22]) 0
     = Some \<lparr> rule = tabRule, entryType = FolderKind, lineNumber = 0 \<rparr>
 \<and> serializeRule (RuleKind_str FolderKind) tabRule = ''allow  folder  a'' @ [CHR 0x09] @ ''b''
 \<and> parseRuleLine (serializeRule (RuleKind_str FolderKind) tabRule) 0
     = Some \<lparr> rule = tabRule\<lparr> pattern := ''a'' \<rparr>, entryType = FolderKind, lineNumber = 0 \<rparr>
 \<and> map rule (entries (parseRulesFile (serializeRule (RuleKind_str FolderKind) tabRule)))
     = [tabRule\<lparr> pattern := ''a'' \<rparr>]
 \<and> pattern tabRule \<noteq> ''a''"
  by code_simp

text \<open>
  \<^bold>\<open>C5.\<close> The matchers at the inputs of their own tests for the flag \<^verbatim>\<open>i\<close>. Each rule
  carries \<^verbatim>\<open>regexFlags = "i"\<close>, and the expression built with that flag matches the
  subject; the folder, document-name and keyword matchers build the expression from the
  pattern alone and return no decision.
\<close>

theorem regex_flag_i_is_not_applied:
  "regexFlags (flaggedRule ''^private/'') = Some ''i''
 \<and> map_option (\<lambda>test. test ''Private/secret.md'') (RegExp sampleHost ''^private/'' ''i'') = Some True
 \<and> checkFolderFilter sampleHost ''Private/secret.md'' [flaggedRule ''^private/''] = None
 \<and> map_option (\<lambda>test. test ''Draft-ideas.md'') (RegExp sampleHost ''^draft-'' ''i'') = Some True
 \<and> checkDocumentNameFilter sampleHost ''notes/Draft-ideas.md'' [flaggedRule ''^draft-''] = None
 \<and> cachedRead sampleVault (TFile ''Shared/doc.md'') = Some ''My PASSWORD is hidden''
 \<and> map_option (\<lambda>test. test ''My PASSWORD is hidden'') (RegExp sampleHost ''password'' ''i'')
     = Some True
 \<and> checkKeywordFilter sampleHost ''Shared/doc.md'' [flaggedRule ''password''] sampleVault = None"
  by code_simp

text \<open>
  \<^bold>\<open>C6.\<close> In each of the four matchers, if no enabled rule of \<open>pre\<close> matches the
  candidate and the enabled rule \<open>r\<close> does, the matcher run on \<open>pre @ r # post\<close> returns
  the decision of \<open>r\<close>: its verdict is the mode of \<open>r\<close> and its matched rule is \<open>r\<close>.
  The rules \<open>post\<close> are arbitrary and do not occur in the result. The tag matcher is taken
  on a candidate whose tags were collected, the keyword matcher on one whose content was
  read.
\<close>

theorem first_match_wins:
  "((\<forall>x\<in>set pre. enabled x \<longrightarrow> \<not> folderRuleMatches h p x) \<and> enabled r \<and> folderRuleMatches h p r
      \<longrightarrow> (\<exists>d. checkFolderFilter h p (pre @ r # post) = Some d
               \<and> allowed d = (mode r = Allow) \<and> matchedRule d = Some r))
 \<and> ((\<forall>x\<in>set pre. enabled x \<longrightarrow> \<not> folderRuleMatches h (basename_of p) x) \<and> enabled r
        \<and> folderRuleMatches h (basename_of p) r
      \<longrightarrow> (\<exists>d. checkDocumentNameFilter h p (pre @ r # post) = Some d
               \<and> allowed d = (mode r = Allow) \<and> matchedRule d = Some r))
 \<and> (collectFileTags p mc v = TagsFound ts
        \<and> (\<forall>x\<in>set pre. enabled x \<longrightarrow> \<not> tagRuleMatches ts x) \<and> enabled r \<and> tagRuleMatches ts r
      \<longrightarrow> (\<exists>d. checkTagFilter p (pre @ r # post) mc v = Some d
               \<and> allowed d = (mode r = Allow) \<and> matchedRule d = Some r))
 \<and> (getAbstractFileByPath v p = Some f \<and> cachedRead v f = Some content
        \<and> (\<forall>x\<in>set pre. enabled x \<longrightarrow> \<not> keywordRuleMatches h content x) \<and> enabled r
        \<and> keywordRuleMatches h content r
      \<longrightarrow> (\<exists>d. checkKeywordFilter h p (pre @ r # post) v = Some d
               \<and> allowed d = (mode r = Allow) \<and> matchedRule d = Some r))"
proof (intro conjI impI)
  assume a: "(\<forall>x\<in>set pre. enabled x \<longrightarrow> \<not> folderRuleMatches h p x) \<and> enabled r
               \<and> folderRuleMatches h p r"
  then have "find (\<lambda>r. enabled r \<and> folderRuleMatches h p r) (pre @ r # post) = Some r"
    by (intro find_first) auto
  then show "\<exists>d. checkFolderFilter h p (pre @ r # post) = Some d
               \<and> allowed d = (mode r = Allow) \<and> matchedRule d = Some r"
    by (simp add: checkFolderFilter_find ruleDecision_def)
next
  assume a: "(\<forall>x\<in>set pre. enabled x \<longrightarrow> \<not> folderRuleMatches h (basename_of p) x) \<and> enabled r
               \<and> folderRuleMatches h (basename_of p) r"
  then have "find (\<lambda>r. enabled r \<and> folderRuleMatches h (basename_of p) r) (pre @ r # post) = Some r"
    by (intro find_first) auto
  then show "\<exists>d. checkDocumentNameFilter h p (pre @ r # post) = Some d
               \<and> allowed d = (mode r = Allow) \<and> matchedRule d = Some r"
    by (simp add: checkDocumentNameFilter_def documentNameLoop_find ruleDecision_def)
next
  assume a: "collectFileTags p mc v = TagsFound ts
        \<and> (\<forall>x\<in>set pre. enabled x \<longrightarrow> \<not> tagRuleMatches ts x) \<and> enabled r \<and> tagRuleMatches ts r"
  then have "find (\<lambda>r. enabled r \<and> tagRuleMatches ts r) (pre @ r # post) = Some r"
    by (intro find_first) auto
  with a show "\<exists>d. checkTagFilter p (pre @ r # post) mc v = Some d
               \<and> allowed d = (mode r = Allow) \<and> matchedRule d = Some r"
    by (simp add: checkTagFilter_def tagLoop_find ruleDecision_def)
next
  assume a: "getAbstractFileByPath v p = Some f \<and> cachedRead v f = Some content
        \<and> (\<forall>x\<in>set pre. enabled x \<longrightarrow> \<not> keywordRuleMatches h content x) \<and> enabled r
        \<and> keywordRuleMatches h content r"
  then have "find (\<lambda>r. enabled r \<and> keywordRuleMatches h content r) (pre @ r # post) = Some r"
    by (intro find_first) auto
  with a show "\<exists>d. checkKeywordFilter h p (pre @ r # post) v = Some d
               \<and> allowed d = (mode r = Allow) \<and> matchedRule d = Some r"
    by (simp add: checkKeywordFilter_def keywordLoop_find ruleDecision_def)
qed

text \<open>The statement at the sample installation.\<close>

theorem first_match_wins_witness:
  "map_option matchedRule
     (checkFolderFilter sampleHost ''Shared/doc.md''
        (firstMatchPre ''Shared/**'' ''Private/**'' @ mkRule Allow ''Shared/**'' False None
           # [mkRule Deny ''Shared/doc.md'' False None]))
     = Some (Some (mkRule Allow ''Shared/**'' False None))
 \<and> map_option matchedRule
     (checkDocumentNameFilter sampleHost ''Shared/doc.md''
        (firstMatchPre ''doc.md'' ''other.md'' @ mkRule Allow ''doc.md'' False None
           # [mkRule Deny ''doc.md'' False None]))
     = Some (Some (mkRule Allow ''doc.md'' False None))
 \<and> map_option matchedRule
     (checkTagFilter ''Shared/doc.md''
        (firstMatchPre ''#draft'' ''#secret'' @ mkRule Allow ''#draft+#Internal'' False None
           # [mkRule Deny ''#draft'' False None]) sampleCache sampleVault)
     = Some (Some (mkRule Allow ''#draft+#Internal'' False None))
 \<and> map_option matchedRule
     (checkKeywordFilter sampleHost ''Shared/doc.md''
        (firstMatchPre ''hidden'' ''password'' @ mkRule Allow ''PASSWORD'' False None
           # [mkRule Deny ''hidden'' False None]) sampleVault)
     = Some (Some (mkRule Allow ''PASSWORD'' False None))"
proof -
  have f: "(\<forall>x\<in>set (firstMatchPre ''Shared/**'' ''Private/**'').
              enabled x \<longrightarrow> \<not> folderRuleMatches sampleHost ''Shared/doc.md'' x)
           \<and> enabled (mkRule Allow ''Shared/**'' False None)
           \<and> folderRuleMatches sampleHost ''Shared/doc.md'' (mkRule Allow ''Shared/**'' False None)"
    by code_simp
  have n: "(\<forall>x\<in>set (firstMatchPre ''doc.md'' ''other.md'').
              enabled x \<longrightarrow> \<not> folderRuleMatches sampleHost (basename_of ''Shared/doc.md'') x)
           \<and> enabled (mkRule Allow ''doc.md'' False None)
           \<and> folderRuleMatches sampleHost (basename_of ''Shared/doc.md'')
                (mkRule Allow ''doc.md'' False None)"
    by code_simp
  have t: "collectFileTags ''Shared/doc.md'' sampleCache sampleVault = TagsFound [''#draft'', ''#internal'']
           \<and> (\<forall>x\<in>set (firstMatchPre ''#draft'' ''#secret'').
              enabled x \<longrightarrow> \<not> tagRuleMatches [''#draft'', ''#internal''] x)
           \<and> enabled (mkRule Allow ''#draft+#Internal'' False None)
           \<and> tagRuleMatches [''#draft'', ''#internal''] (mkRule Allow ''#draft+#Internal'' False None)"
    by code_simp
  have k: "getAbstractFileByPath sampleVault ''Shared/doc.md'' = Some (TFile ''Shared/doc.md'')
           \<and> cachedRead sampleVault (TFile ''Shared/doc.md'') = Some ''My PASSWORD is hidden''
           \<and> (\<forall>x\<in>set (firstMatchPre ''hidden'' ''password'').
              enabled x \<longrightarrow> \<not> keywordRuleMatches sampleHost ''My PASSWORD is hidden'' x)
           \<and> enabled (mkRule Allow ''PASSWORD'' False None)
           \<and> keywordRuleMatches sampleHost ''My PASSWORD is hidden''
                (mkRule Allow ''PASSWORD'' False None)"
    by code_simp
  note fm = first_match_wins [where h = sampleHost and p = "''Shared/doc.md''"
      and mc = sampleCache and v = sampleVault]
  from f fm [where pre = "firstMatchPre ''Shared/**'' ''Private/**''"
      and r = "mkRule Allow ''Shared/**'' False None"
      and post = "[mkRule Deny ''Shared/doc.md'' False None]", THEN conjunct1]
  have 1: "map_option matchedRule
     (checkFolderFilter sampleHost ''Shared/doc.md''
        (firstMatchPre ''Shared/**'' ''Private/**'' @ mkRule Allow ''Shared/**'' False None
           # [mkRule Deny ''Shared/doc.md'' False None]))
     = Some (Some (mkRule Allow ''Shared/**'' False None))"
    by auto
  from n fm [where pre = "firstMatchPre ''doc.md'' ''other.md''"
      and r = "mkRule Allow ''doc.md'' False None"
      and post = "[mkRule Deny ''doc.md'' False None]", THEN conjunct2, THEN conjunct1]
  have 2: "map_option matchedRule
     (checkDocumentNameFilter sampleHost ''Shared/doc.md''
        (firstMatchPre ''doc.md'' ''other.md'' @ mkRule Allow ''doc.md'' False None
           # [mkRule Deny ''doc.md'' False None]))
     = Some (Some (mkRule Allow ''doc.md'' False None))"
    by auto
  from t fm [where pre = "firstMatchPre ''#draft'' ''#secret''"
      and r = "mkRule Allow ''#draft+#Internal'' False None"
      and post = "[mkRule Deny ''#draft'' False None]" and ts = "[''#draft'', ''#internal'']",
      THEN conjunct2, THEN conjunct2, THEN conjunct1]
  have 3: "map_option matchedRule
     (checkTagFilter ''Shared/doc.md''
        (firstMatchPre ''#draft'' ''#secret'' @ mkRule Allow ''#draft+#Internal'' False None
           # [mkRule Deny ''#draft'' False None]) sampleCache sampleVault)
     = Some (Some (mkRule Allow ''#draft+#Internal'' False None))"
    by auto
  from k fm [where pre = "firstMatchPre ''hidden'' ''password''"
      and r = "mkRule Allow ''PASSWORD'' False None"
      and post = "[mkRule Deny ''hidden'' False None]" and f = "TFile ''Shared/doc.md''"
      and content = "''My PASSWORD is hidden''",
      THEN conjunct2, THEN conjunct2, THEN conjunct2]
  have 4: "map_option matchedRule
     (checkKeywordFilter sampleHost ''Shared/doc.md''
        (firstMatchPre ''hidden'' ''password'' @ mkRule Allow ''PASSWORD'' False None
           # [mkRule Deny ''hidden'' False None]) sampleVault)
     = Some (Some (mkRule Allow ''PASSWORD'' False None))"
    by auto
  show ?thesis by (intro conjI; fact)
qed

text \<open>
  \<^bold>\<open>C7.\<close> Every rule in the grouped result of \<^verbatim>\<open>parseRulesFile\<close> is enabled. Every line
  that yields an entry has that entry in the entry list, with the index of the line as its
  line number, and the entry is disabled exactly when the line carries the disabled
  marker. Emptying the lines that carry the marker leaves the grouped rules, and with them
  every decision of the engine, unchanged. Each of the four matchers returns on a rule
  list what it returns on the enabled rules of the list.
\<close>

theorem disabled_rules_never_affect_decisions:
  "(\<forall>r \<in> set (folder (grouped (parseRulesFile content)))
         \<union> set (name (grouped (parseRulesFile content)))
         \<union> set (tag (grouped (parseRulesFile content)))
         \<union> set (keyword (grouped (parseRulesFile content))). enabled r)
 \<and> (\<forall>i e. i < length (split content (CHR 0x0A))
           \<and> lineEntry (split content (CHR 0x0A) ! i) i = Some e
        \<longrightarrow> e \<in> set (entries (parseRulesFile content)) \<and> lineNumber e = i
            \<and> enabled (rule e) = (\<not> startsWith (trim (split content (CHR 0x0A) ! i)) DISABLED_PREFIX))
 \<and> grouped (parseRulesFile (withoutDisabledLines content)) = grouped (parseRulesFile content)
 \<and> evaluateFile h \<lparr> app = a, fileRules = Some (grouped (parseRulesFile content)) \<rparr> p s meth
     = evaluateFile h \<lparr> app = a,
          fileRules = Some (grouped (parseRulesFile (withoutDisabledLines content))) \<rparr> p s meth
 \<and> checkFolderFilter h p rs = checkFolderFilter h p (filter enabled rs)
 \<and> checkDocumentNameFilter h p rs = checkDocumentNameFilter h p (filter enabled rs)
 \<and> checkTagFilter p rs mc v = checkTagFilter p (filter enabled rs) mc v
 \<and> checkKeywordFilter h p rs v = checkKeywordFilter h p (filter enabled rs) v"
proof -
  have en: "\<forall>r \<in> set (folder (grouped (parseRulesFile content)))
         \<union> set (name (grouped (parseRulesFile content)))
         \<union> set (tag (grouped (parseRulesFile content)))
         \<union> set (keyword (grouped (parseRulesFile content))). enabled r"
    by (subst (1 2 3 4) parseRulesFile_grouped) (auto dest: activeRules_enabled)
  have ent: "\<forall>i e. i < length (split content (CHR 0x0A))
           \<and> lineEntry (split content (CHR 0x0A) ! i) i = Some e
        \<longrightarrow> e \<in> set (entries (parseRulesFile content)) \<and> lineNumber e = i
            \<and> enabled (rule e) = (\<not> startsWith (trim (split content (CHR 0x0A) ! i)) DISABLED_PREFIX)"
  proof (intro allI impI)
    fix i e
    assume a: "i < length (split content (CHR 0x0A))
           \<and> lineEntry (split content (CHR 0x0A) ! i) i = Some e"
    then have "e \<in> set (lineEntries (split content (CHR 0x0A)) 0)"
      using lineEntries_nth [of i "split content (CHR 0x0A)" 0 e] by simp
    with a lineEntry_fields [of "split content (CHR 0x0A) ! i" i e]
    show "e \<in> set (entries (parseRulesFile content)) \<and> lineNumber e = i
            \<and> enabled (rule e) = (\<not> startsWith (trim (split content (CHR 0x0A) ! i)) DISABLED_PREFIX)"
      by (simp add: parseRulesFile_entries)
  qed
  have ev: "evaluateFile h \<lparr> app = a, fileRules = Some (grouped (parseRulesFile content)) \<rparr> p s meth
     = evaluateFile h \<lparr> app = a,
          fileRules = Some (grouped (parseRulesFile (withoutDisabledLines content))) \<rparr> p s meth"
    by (simp add: grouped_withoutDisabledLines)
  show ?thesis
    by (intro conjI en ent ev grouped_withoutDisabledLines matchers_skip_disabled [symmetric])
qed

text \<open>The statement at the sample installation.\<close>

theorem disabled_rules_never_affect_decisions_witness:
  "map lineNumber (entries (parseRulesFile sampleRulesFile)) = [1, 2, 3]
 \<and> map (enabled \<circ> rule) (entries (parseRulesFile sampleRulesFile)) = [False, True, False]
 \<and> map pattern (folder (grouped (parseRulesFile sampleRulesFile))) = [''Shared/**'']
 \<and> keyword (grouped (parseRulesFile sampleRulesFile)) = []
 \<and> lineNumber (disabledEntry) = 1 \<and> \<not> enabled (rule disabledEntry)
 \<and> disabledEntry \<in> set (entries (parseRulesFile sampleRulesFile))
 \<and> allowed (evaluateFile sampleHost
      \<lparr> app = sampleApp, fileRules = Some (grouped (parseRulesFile sampleRulesFile)) \<rparr>
      ''Shared/doc.md'' noGlobalTags (Some ''GET''))
 \<and> allowed (evaluateFile sampleHost
      \<lparr> app = sampleApp,
        fileRules = Some (grouped (parseRulesFile (withoutDisabledLines sampleRulesFile))) \<rparr>
      ''Shared/doc.md'' noGlobalTags (Some ''GET''))"
proof -
  have 1: "map lineNumber (entries (parseRulesFile sampleRulesFile)) = [1, 2, 3]"
    and 2: "map (enabled \<circ> rule) (entries (parseRulesFile sampleRulesFile)) = [False, True, False]"
    and 3: "map pattern (folder (grouped (parseRulesFile sampleRulesFile))) = [''Shared/**'']"
    and 4: "keyword (grouped (parseRulesFile sampleRulesFile)) = []"
    by code_simp+
  have l: "1 < length (split sampleRulesFile (CHR 0x0A))
         \<and> lineEntry (split sampleRulesFile (CHR 0x0A) ! 1) 1 = Some disabledEntry"
    by code_simp
  have d: "startsWith (trim (split sampleRulesFile (CHR 0x0A) ! 1)) DISABLED_PREFIX"
    by code_simp
  note th = disabled_rules_never_affect_decisions [where content = sampleRulesFile
      and h = sampleHost and a = sampleApp and p = "''Shared/doc.md''" and s = noGlobalTags
      and meth = "Some ''GET''"]
  from th [THEN conjunct2, THEN conjunct1]
  have "\<forall>i e. i < length (split sampleRulesFile (CHR 0x0A))
           \<and> lineEntry (split sampleRulesFile (CHR 0x0A) ! i) i = Some e
        \<longrightarrow> e \<in> set (entries (parseRulesFile sampleRulesFile)) \<and> lineNumber e = i
            \<and> enabled (rule e)
                = (\<not> startsWith (trim (split sampleRulesFile (CHR 0x0A) ! i)) DISABLED_PREFIX)" .
  with l d have 5: "lineNumber (disabledEntry) = 1" and 6: "\<not> enabled (rule disabledEntry)"
    and 7: "disabledEntry \<in> set (entries (parseRulesFile sampleRulesFile))"
    by blast+
  have 8: "allowed (evaluateFile sampleHost
      \<lparr> app = sampleApp, fileRules = Some (grouped (parseRulesFile sampleRulesFile)) \<rparr>
      ''Shared/doc.md'' noGlobalTags (Some ''GET''))"
    by code_simp
  from th [THEN conjunct2, THEN conjunct2, THEN conjunct2, THEN conjunct1]
  have "evaluateFile sampleHost
      \<lparr> app = sampleApp, fileRules = Some (grouped (parseRulesFile sampleRulesFile)) \<rparr>
      ''Shared/doc.md'' noGlobalTags (Some ''GET'')
     = evaluateFile sampleHost \<lparr> app = sampleApp,
          fileRules = Some (grouped (parseRulesFile (withoutDisabledLines sampleRulesFile))) \<rparr>
          ''Shared/doc.md'' noGlobalTags (Some ''GET'')" .
  with 8 have 9: "allowed (evaluateFile sampleHost
      \<lparr> app = sampleApp,
        fileRules = Some (grouped (parseRulesFile (withoutDisabledLines sampleRulesFile))) \<rparr>
      ''Shared/doc.md'' noGlobalTags (Some ''GET''))"
    by simp
  show ?thesis by (intro conjI; fact)
qed

text \<open>
  \<^bold>\<open>C8.\<close> \<^verbatim>\<open>filterPaths\<close> returns the input paths whose evaluation allows them, in the
  order of the input and with their repetitions. The method of every evaluation is the
  one the source fixes, \<^verbatim>\<open>"GET"\<close>.
\<close>

theorem filterPaths_exact:
  "filterPaths h this paths settings =
     filter (\<lambda>p. allowed (evaluateFile h this p settings (Some ''GET''))) paths"
  unfolding filterPaths_def Let_def
  by (induction paths) (simp_all add: List.map_filter_def)

text \<open>The statement at the sample installation.\<close>

theorem filterPaths_exact_witness:
  "filterPaths sampleHost (mkEngine scopedRules)
     [''Shared/doc.md'', ''Public/a.md'', ''Private/b.md'', ''Both/c.md'', ''Shared/doc.md'']
     sampleSettings
   = [''Shared/doc.md'', ''Private/b.md'', ''Shared/doc.md'']"
  unfolding filterPaths_exact by code_simp

text \<open>
  \<^bold>\<open>C9.\<close> Let \<open>r\<close> be a regular-expression rule whose pattern the constructor rejects.
  The folder, document-name and keyword matchers return on \<open>pre @ r # post\<close> what they
  return on \<open>pre @ post\<close>, and \<^verbatim>\<open>evaluateFile\<close> returns the same decision with and
  without \<open>r\<close> among the folder rules or the name rules, and among the keyword rules when
  another keyword rule remains. The rejection is a value of the model that the matcher
  turns into the next iteration, so no error leaves the chain.
\<close>

theorem invalid_regex_is_skipped:
  assumes "isRegex r" and "RegExp h (pattern r) [] = None"
  shows "checkFolderFilter h p (pre @ r # post) = checkFolderFilter h p (pre @ post)
       \<and> checkDocumentNameFilter h p (pre @ r # post) = checkDocumentNameFilter h p (pre @ post)
       \<and> checkKeywordFilter h p (pre @ r # post) v = checkKeywordFilter h p (pre @ post) v
       \<and> (fileRules this = Some rules \<and> folder rules = pre @ r # post \<longrightarrow>
           evaluateFile h this p s meth
             = evaluateFile h (this\<lparr>fileRules := Some (rules\<lparr>folder := pre @ post\<rparr>)\<rparr>) p s meth)
       \<and> (fileRules this = Some rules \<and> name rules = pre @ r # post \<longrightarrow>
           evaluateFile h this p s meth
             = evaluateFile h (this\<lparr>fileRules := Some (rules\<lparr>name := pre @ post\<rparr>)\<rparr>) p s meth)
       \<and> (fileRules this = Some rules \<and> keyword rules = pre @ r # post \<and> pre @ post \<noteq> [] \<longrightarrow>
           evaluateFile h this p s meth
             = evaluateFile h (this\<lparr>fileRules := Some (rules\<lparr>keyword := pre @ post\<rparr>)\<rparr>) p s meth)"
proof -
  have f: "checkFolderFilter h p (pre @ r # post) = checkFolderFilter h p (pre @ post)"
    using assms by (simp add: checkFolderFilter_find find_skip invalid_regex_no_match)
  have n: "checkDocumentNameFilter h p (pre @ r # post) = checkDocumentNameFilter h p (pre @ post)"
    using assms
    by (simp add: checkDocumentNameFilter_def documentNameLoop_find find_skip invalid_regex_no_match)
  have k: "checkKeywordFilter h p (pre @ r # post) v = checkKeywordFilter h p (pre @ post) v" for v
    using assms
    by (intro checkKeywordFilter_cong) (simp add: keywordLoop_find find_skip invalid_regex_no_match)
  have ef: "evaluateFile h this p s meth
          = evaluateFile h (this\<lparr>fileRules := Some (rules\<lparr>folder := pre @ post\<rparr>)\<rparr>) p s meth"
    if "fileRules this = Some rules \<and> folder rules = pre @ r # post"
    using that f by (simp add: evaluateFile_stages folderStage_cong cong: option.case_cong)
  have en: "evaluateFile h this p s meth
          = evaluateFile h (this\<lparr>fileRules := Some (rules\<lparr>name := pre @ post\<rparr>)\<rparr>) p s meth"
    if "fileRules this = Some rules \<and> name rules = pre @ r # post"
    using that n by (simp add: evaluateFile_stages nameStage_cong cong: option.case_cong)
  have ek: "evaluateFile h this p s meth
          = evaluateFile h (this\<lparr>fileRules := Some (rules\<lparr>keyword := pre @ post\<rparr>)\<rparr>) p s meth"
    if "fileRules this = Some rules \<and> keyword rules = pre @ r # post \<and> pre @ post \<noteq> []"
    using that k [of "vault (app this)"]
    by (simp add: evaluateFile_stages keywordStage_cong cong: option.case_cong)
  show ?thesis
    using f n k ef en ek by blast
qed

text \<open>The statement at the sample installation.\<close>

theorem invalid_regex_is_skipped_witness:
  "isRegex brokenRule \<and> RegExp sampleHost (pattern brokenRule) [] = None
 \<and> checkFolderFilter sampleHost ''Shared/doc.md''
      ([mkRule Deny ''Private/**'' False None] @ brokenRule # [mkRule Allow ''Shared/**'' False None])
    = Some (ruleDecision ''Folder filter: '' '' by pattern '' Folder
              (mkRule Allow ''Shared/**'' False None))
 \<and> checkDocumentNameFilter sampleHost ''Shared/doc.md''
      ([] @ brokenRule # [mkRule Deny ''doc.md'' False None])
    = Some (ruleDecision ''Document name filter: '' '' by pattern '' DocumentName
              (mkRule Deny ''doc.md'' False None))
 \<and> checkKeywordFilter sampleHost ''Shared/doc.md'' ([] @ brokenRule # []) sampleVault = None
 \<and> allowed (evaluateFile sampleHost
      (mkEngine (noRules\<lparr>folder := [] @ brokenRule # [mkRule Allow ''Shared/**'' False None]\<rparr>))
      ''Shared/doc.md'' noGlobalTags (Some ''GET''))"
proof -
  have a: "isRegex brokenRule" and b: "RegExp sampleHost (pattern brokenRule) [] = None"
    by code_simp+
  note th = invalid_regex_is_skipped [OF a b, where p = "''Shared/doc.md''"]
  have 1: "checkFolderFilter sampleHost ''Shared/doc.md''
      ([mkRule Deny ''Private/**'' False None] @ brokenRule # [mkRule Allow ''Shared/**'' False None])
    = Some (ruleDecision ''Folder filter: '' '' by pattern '' Folder
              (mkRule Allow ''Shared/**'' False None))"
    unfolding th [where pre = "[mkRule Deny ''Private/**'' False None]"
        and post = "[mkRule Allow ''Shared/**'' False None]", THEN conjunct1]
    by code_simp
  have 2: "checkDocumentNameFilter sampleHost ''Shared/doc.md''
      ([] @ brokenRule # [mkRule Deny ''doc.md'' False None])
    = Some (ruleDecision ''Document name filter: '' '' by pattern '' DocumentName
              (mkRule Deny ''doc.md'' False None))"
    unfolding th [where pre = "[]" and post = "[mkRule Deny ''doc.md'' False None]",
        THEN conjunct2, THEN conjunct1]
    by code_simp
  have 3: "checkKeywordFilter sampleHost ''Shared/doc.md'' ([] @ brokenRule # []) sampleVault = None"
    unfolding th [where pre = "[]" and post = "[]", THEN conjunct2, THEN conjunct2, THEN conjunct1]
    by code_simp
  have r: "fileRules (mkEngine (noRules\<lparr>folder := [] @ brokenRule # [mkRule Allow ''Shared/**'' False None]\<rparr>))
             = Some (noRules\<lparr>folder := [] @ brokenRule # [mkRule Allow ''Shared/**'' False None]\<rparr>)
         \<and> folder (noRules\<lparr>folder := [] @ brokenRule # [mkRule Allow ''Shared/**'' False None]\<rparr>)
             = [] @ brokenRule # [mkRule Allow ''Shared/**'' False None]"
    by (simp add: mkEngine_def)
  have 4: "allowed (evaluateFile sampleHost
      (mkEngine (noRules\<lparr>folder := [] @ brokenRule # [mkRule Allow ''Shared/**'' False None]\<rparr>))
      ''Shared/doc.md'' noGlobalTags (Some ''GET''))"
    unfolding th [where pre = "[]" and post = "[mkRule Allow ''Shared/**'' False None]"
        and this = "mkEngine (noRules\<lparr>folder := [] @ brokenRule # [mkRule Allow ''Shared/**'' False None]\<rparr>)"
        and rules = "noRules\<lparr>folder := [] @ brokenRule # [mkRule Allow ''Shared/**'' False None]\<rparr>"
        and s = noGlobalTags and meth = "Some ''GET''",
        THEN conjunct2, THEN conjunct2, THEN conjunct2, THEN conjunct1, rule_format, OF r]
    by code_simp
  show ?thesis by (intro conjI; fact)
qed

text \<open>
  \<^bold>\<open>C10.\<close> The three decisions built on missing data carry no matched rule, the method
  check accepts a decision without a rule for every method, and so the guard of a stage
  returns them for every method. A cache miss with a global tag configured makes
  \<^verbatim>\<open>evaluateFile\<close> return the global denial; a cache miss with tag rules configured, or
  a rejected read with keyword rules configured, makes it return the stage's denial
  whenever the earlier stages have returned nothing, whichever methods the rules list.
\<close>

theorem fail_closed_denial_ignores_method_scope:
  "methodAllowed None m
 \<and> matchedRule globalUnavailableDecision = None
 \<and> matchedRule tagUnavailableDecision = None \<and> matchedRule readErrorDecision = None
 \<and> stageReturns meth (Some tagUnavailableDecision) = Some tagUnavailableDecision
 \<and> stageReturns meth (Some readErrorDecision) = Some readErrorDecision
 \<and> (collectFileTags p (metadataCache (app this)) (vault (app this)) = CacheUnavailable
      \<and> (globalDenyTag s \<noteq> [] \<or> globalAllowTag s \<noteq> [])
      \<longrightarrow> evaluateFile h this p s meth = globalUnavailableDecision)
 \<and> (fileRules this = Some rules
      \<and> checkGlobalTags p (metadataCache (app this)) (vault (app this))
            (globalAllowTag s) (globalDenyTag s) = None
      \<and> folderStage h rules p meth = None \<and> nameStage h rules p meth = None
      \<longrightarrow>
        (collectFileTags p (metadataCache (app this)) (vault (app this)) = CacheUnavailable
           \<and> tag rules \<noteq> []
         \<longrightarrow> evaluateFile h this p s meth = tagUnavailableDecision)
      \<and> (tagStage (app this) rules p meth = None
           \<and> getAbstractFileByPath (vault (app this)) p = Some f
           \<and> cachedRead (vault (app this)) f = None \<and> keyword rules \<noteq> []
         \<longrightarrow> evaluateFile h this p s meth = readErrorDecision))"
proof -
  have g: "evaluateFile h this p s meth = globalUnavailableDecision"
    if "collectFileTags p (metadataCache (app this)) (vault (app this)) = CacheUnavailable
      \<and> (globalDenyTag s \<noteq> [] \<or> globalAllowTag s \<noteq> [])"
    using that by (auto simp: evaluateFile_def checkGlobalTags_unavailable)
  show ?thesis
    using g
    by (simp add: methodAllowed_None fail_closed_unscoped stageReturns_unscoped
          evaluateFile_stages tagStage_unavailable keywordStage_read_error)
qed

text \<open>The statement at the sample installation.\<close>

theorem fail_closed_denial_ignores_method_scope_witness:
  "methods (hd (tag scopedTagRules)) = Some [GET]
 \<and> methods (hd (keyword scopedTagRules)) = Some [GET]
 \<and> evaluateFile sampleHost (mkEngine scopedTagRules) ''Stale/d.md'' noGlobalTags (Some ''PUT'')
     = tagUnavailableDecision
 \<and> evaluateFile sampleHost (mkEngine scopedTagRules) ''Locked/e.md'' noGlobalTags (Some ''DELETE'')
     = readErrorDecision
 \<and> evaluateFile sampleHost (mkEngine scopedTagRules) ''Stale/d.md'' sampleSettings (Some ''PUT'')
     = globalUnavailableDecision"
proof -
  have m: "methods (hd (tag scopedTagRules)) = Some [GET]"
      "methods (hd (keyword scopedTagRules)) = Some [GET]"
    by code_simp+
  have r: "fileRules (mkEngine scopedTagRules) = Some scopedTagRules" by (simp add: mkEngine_def)
  have st: "checkGlobalTags ''Stale/d.md'' (metadataCache (app (mkEngine scopedTagRules)))
              (vault (app (mkEngine scopedTagRules))) (globalAllowTag noGlobalTags)
              (globalDenyTag noGlobalTags) = None
          \<and> folderStage sampleHost scopedTagRules ''Stale/d.md'' (Some ''PUT'') = None
          \<and> nameStage sampleHost scopedTagRules ''Stale/d.md'' (Some ''PUT'') = None
          \<and> collectFileTags ''Stale/d.md'' (metadataCache (app (mkEngine scopedTagRules)))
              (vault (app (mkEngine scopedTagRules))) = CacheUnavailable
          \<and> tag scopedTagRules \<noteq> []"
    by code_simp
  have lo: "checkGlobalTags ''Locked/e.md'' (metadataCache (app (mkEngine scopedTagRules)))
              (vault (app (mkEngine scopedTagRules))) (globalAllowTag noGlobalTags)
              (globalDenyTag noGlobalTags) = None
          \<and> folderStage sampleHost scopedTagRules ''Locked/e.md'' (Some ''DELETE'') = None
          \<and> nameStage sampleHost scopedTagRules ''Locked/e.md'' (Some ''DELETE'') = None
          \<and> tagStage (app (mkEngine scopedTagRules)) scopedTagRules ''Locked/e.md'' (Some ''DELETE'')
              = None
          \<and> getAbstractFileByPath (vault (app (mkEngine scopedTagRules))) ''Locked/e.md''
              = Some (TFile ''Locked/e.md'')
          \<and> cachedRead (vault (app (mkEngine scopedTagRules))) (TFile ''Locked/e.md'') = None
          \<and> keyword scopedTagRules \<noteq> []"
    by code_simp
  have gl: "collectFileTags ''Stale/d.md'' (metadataCache (app (mkEngine scopedTagRules)))
              (vault (app (mkEngine scopedTagRules))) = CacheUnavailable
          \<and> (globalDenyTag sampleSettings \<noteq> [] \<or> globalAllowTag sampleSettings \<noteq> [])"
    by code_simp
  note th = fail_closed_denial_ignores_method_scope [where this = "mkEngine scopedTagRules"
      and rules = scopedTagRules and h = sampleHost]
  from r st th [where p = "''Stale/d.md''" and s = noGlobalTags and meth = "Some ''PUT''"]
  have 1: "evaluateFile sampleHost (mkEngine scopedTagRules) ''Stale/d.md'' noGlobalTags (Some ''PUT'')
     = tagUnavailableDecision"
    by blast
  from r lo th [where p = "''Locked/e.md''" and s = noGlobalTags and meth = "Some ''DELETE''"
      and f = "TFile ''Locked/e.md''"]
  have 2: "evaluateFile sampleHost (mkEngine scopedTagRules) ''Locked/e.md'' noGlobalTags
             (Some ''DELETE'') = readErrorDecision"
    by blast
  from gl th [where p = "''Stale/d.md''" and s = sampleSettings and meth = "Some ''PUT''"]
  have 3: "evaluateFile sampleHost (mkEngine scopedTagRules) ''Stale/d.md'' sampleSettings (Some ''PUT'')
     = globalUnavailableDecision"
    by blast
  show ?thesis by (intro conjI; fact)
qed

section \<open>Further properties\<close>

lemma regexFlags_not_read:
  "folderRuleMatches h subject (r\<lparr> regexFlags := fl \<rparr>) = folderRuleMatches h subject r"
  "keywordRuleMatches h subject (r\<lparr> regexFlags := fl \<rparr>) = keywordRuleMatches h subject r"
  by (simp_all add: folderRuleMatches_def keywordRuleMatches_def)

lemma find_map_flags:
  assumes "\<And>r. P (g r) = P r"
  shows "find P (map g rules) = map_option g (find P rules)"
  using assms by (induction rules) simp_all

text \<open>
  The folder, document-name and keyword matchers never read \<^verbatim>\<open>regexFlags\<close>: setting the
  flags of every rule to any value leaves the verdict unchanged.
\<close>

theorem matchers_ignore_regexFlags:
  "map_option allowed (checkFolderFilter h p (map (\<lambda>r. r\<lparr> regexFlags := fl \<rparr>) rules))
     = map_option allowed (checkFolderFilter h p rules)
 \<and> map_option allowed (checkDocumentNameFilter h p (map (\<lambda>r. r\<lparr> regexFlags := fl \<rparr>) rules))
     = map_option allowed (checkDocumentNameFilter h p rules)
 \<and> map_option allowed (checkKeywordFilter h p (map (\<lambda>r. r\<lparr> regexFlags := fl \<rparr>) rules) v)
     = map_option allowed (checkKeywordFilter h p rules v)"
proof -
  have f: "find (\<lambda>r. enabled r \<and> folderRuleMatches h s r) (map (\<lambda>r. r\<lparr> regexFlags := fl \<rparr>) rules)
         = map_option (\<lambda>r. r\<lparr> regexFlags := fl \<rparr>) (find (\<lambda>r. enabled r \<and> folderRuleMatches h s r) rules)"
    for s
    by (rule find_map_flags) (simp add: regexFlags_not_read)
  have k: "find (\<lambda>r. enabled r \<and> keywordRuleMatches h s r) (map (\<lambda>r. r\<lparr> regexFlags := fl \<rparr>) rules)
         = map_option (\<lambda>r. r\<lparr> regexFlags := fl \<rparr>) (find (\<lambda>r. enabled r \<and> keywordRuleMatches h s r) rules)"
    for s
    by (rule find_map_flags) (simp add: regexFlags_not_read)
  show ?thesis
    by (simp add: checkFolderFilter_find checkDocumentNameFilter_def documentNameLoop_find
          checkKeywordFilter_def keywordLoop_find f k option.map_comp comp_def ruleDecision_def
          split: option.splits)
qed

text \<open>The statement at the sample installation.\<close>

theorem matchers_ignore_regexFlags_witness:
  "map_option allowed
     (checkFolderFilter sampleHost ''private/secret.md'' [mkRule Deny ''^private/'' True None])
     = Some False
 \<and> map_option allowed
     (checkFolderFilter sampleHost ''private/secret.md''
        (map (\<lambda>r. r\<lparr> regexFlags := Some ''i'' \<rparr>) [mkRule Deny ''^private/'' True None]))
     = Some False
 \<and> map_option allowed
     (checkFolderFilter sampleHost ''Private/secret.md''
        (map (\<lambda>r. r\<lparr> regexFlags := Some ''i'' \<rparr>) [mkRule Deny ''^private/'' True None]))
     = None"
proof -
  have 1: "map_option allowed
     (checkFolderFilter sampleHost ''private/secret.md'' [mkRule Deny ''^private/'' True None])
     = Some False"
    by code_simp
  have 0: "map_option allowed
     (checkFolderFilter sampleHost ''Private/secret.md'' [mkRule Deny ''^private/'' True None])
     = None"
    by code_simp
  note th = matchers_ignore_regexFlags [where h = sampleHost and fl = "Some ''i''"
      and rules = "[mkRule Deny ''^private/'' True None]"]
  from 1 th [where p = "''private/secret.md''", THEN conjunct1]
  have 2: "map_option allowed
     (checkFolderFilter sampleHost ''private/secret.md''
        (map (\<lambda>r. r\<lparr> regexFlags := Some ''i'' \<rparr>) [mkRule Deny ''^private/'' True None]))
     = Some False"
    by (simp only:)
  from 0 th [where p = "''Private/secret.md''", THEN conjunct1]
  have 3: "map_option allowed
     (checkFolderFilter sampleHost ''Private/secret.md''
        (map (\<lambda>r. r\<lparr> regexFlags := Some ''i'' \<rparr>) [mkRule Deny ''^private/'' True None]))
     = None"
    by (simp only:)
  show ?thesis by (intro conjI; fact)
qed

lemma isSpace_space [simp]: "isSpace (CHR '' '')"
  by (simp add: isSpace_def)

lemma takeWhile_token:
  "noSpaces a \<Longrightarrow> isSpace c \<Longrightarrow> takeWhile (\<lambda>c. \<not> isSpace c) (a @ c # rest) = a"
  by (induction a) (simp_all add: noSpaces_def)

lemma dropWhile_token:
  "noSpaces a \<Longrightarrow> isSpace c \<Longrightarrow> dropWhile (\<lambda>c. \<not> isSpace c) (a @ c # rest) = c # rest"
  by (induction a) (simp_all add: noSpaces_def)

lemma takeWhile_token_end:
  "noSpaces a \<Longrightarrow> takeWhile (\<lambda>c. \<not> isSpace c) a = a"
  by (induction a) (simp_all add: noSpaces_def)

lemma dropWhile_token_end:
  "noSpaces a \<Longrightarrow> dropWhile (\<lambda>c. \<not> isSpace c) a = []"
  by (induction a) (simp_all add: noSpaces_def)

lemma firstSplit_fields:
  assumes "noSpaces m" "m \<noteq> []" "noSpaces k" "k \<noteq> []" "rest = [] \<or> \<not> isSpace (hd rest)"
  shows "firstSplit (m @ ''  '' @ k @ ''  '' @ rest) = Some (m, k, rest)"
proof -
  have d: "dropWhile isSpace rest = rest"
    using assms(5) by (cases rest) auto
  have k0: "\<not> isSpace (hd k)" using assms(3,4) by (cases k) (auto simp: noSpaces_def)
  have 1: "takeWhile (\<lambda>c. \<not> isSpace c) (m @ ''  '' @ k @ ''  '' @ rest) = m"
    using takeWhile_token [OF assms(1), of "CHR '' ''"] by simp
  have 2: "dropWhile (\<lambda>c. \<not> isSpace c) (m @ ''  '' @ k @ ''  '' @ rest) = ''  '' @ k @ ''  '' @ rest"
    using dropWhile_token [OF assms(1), of "CHR '' ''"] by simp
  have 3: "dropWhile isSpace (''  '' @ k @ ''  '' @ rest) = k @ ''  '' @ rest"
    using k0 assms(4) by (cases k) auto
  have 4: "takeWhile (\<lambda>c. \<not> isSpace c) (k @ ''  '' @ rest) = k"
    using takeWhile_token [OF assms(3), of "CHR '' ''"] by simp
  have 5: "dropWhile (\<lambda>c. \<not> isSpace c) (k @ ''  '' @ rest) = ''  '' @ rest"
    using dropWhile_token [OF assms(3), of "CHR '' ''"] by simp
  show ?thesis
    unfolding firstSplit_def Let_def 1 2 3 4 5
    using assms(2,4) d by simp
qed

lemma dropWhile_id: "xs = [] \<or> \<not> P (hd xs) \<Longrightarrow> dropWhile P xs = xs"
  by (cases xs) auto

lemma trim_id:
  assumes "s = [] \<or> (\<not> isSpace (hd s) \<and> \<not> isSpace (last s))"
  shows "trim s = s"
proof -
  have 1: "dropWhile isSpace s = s"
    using assms by (intro dropWhile_id) auto
  have "rev s = [] \<or> \<not> isSpace (hd (rev s))"
    using assms by (auto simp: hd_rev)
  then have 2: "dropWhile isSpace (rev s) = rev s"
    by (rule dropWhile_id)
  show ?thesis by (simp add: trim_def 1 2)
qed


lemma splitSpaces_token: "noSpaces a \<Longrightarrow> splitSpaces a = [a]"
  by (induction a) (simp_all add: noSpaces_def)

lemma noSpaces_hd: "noSpaces b \<Longrightarrow> b = [] \<or> \<not> isSpace (hd b)"
  by (cases b) (simp_all add: noSpaces_def)

lemma splitSpaces_two:
  "noSpaces a \<Longrightarrow> noSpaces b \<Longrightarrow> splitSpaces (a @ CHR '' '' # CHR '' '' # b) = [a, b]"
proof (induction a)
  case Nil
  with noSpaces_hd [of b] show ?case by (auto simp: splitSpaces_token)
next
  case (Cons c a)
  then show ?case by (simp add: noSpaces_def)
qed

lemma indexOfAt_quote:
  "CHR 0x22 \<notin> set a \<Longrightarrow> indexOfAt (a @ CHR 0x22 # rest) [CHR 0x22] n = int (n + length a)"
  by (induction a arbitrary: n) (auto simp: startsWith_def)

lemma indexOf_close_quote:
  "CHR 0x22 \<notin> set a \<Longrightarrow>
     indexOf (CHR 0x22 # a @ CHR 0x22 # rest) [CHR 0x22] 1 = int (Suc (length a))"
  by (simp add: indexOf_def indexOfAt_quote)

lemma patternAndMethods_quoted:
  assumes "CHR 0x22 \<notin> set a" and "noSpaces ms"
  shows "patternAndMethods ([CHR 0x22] @ a @ [CHR 0x22] @ (if ms = [] then [] else ''  '' @ ms))
           = Some (a, if ms = [] then None else Some ms)"
proof -
  let ?t = "[CHR 0x22] @ a @ [CHR 0x22] @ (if ms = [] then [] else ''  '' @ ms)"
  have l: "\<not> isSpace (last ?t)"
    using assms(2) by (cases ms rule: rev_cases) (auto simp: noSpaces_def isSpace_def)
  have t: "trim ?t = ?t"
    using l by (intro trim_id) (simp add: isSpace_def)
  have after: "trim (if ms = [] then [] else ''  '' @ ms) = ms"
  proof (cases "ms = []")
    case True
    then show ?thesis by (simp add: trim_def)
  next
    case False
    with assms(2) have "\<not> isSpace (hd ms)" "\<not> isSpace (last ms)"
      by (auto simp: noSpaces_def list_all_iff)
    with False have "dropWhile isSpace (''  '' @ ms) = ms" "trim ms = ms"
      by (auto intro: trim_id dropWhile_id)
    with False show ?thesis
      by (simp add: trim_def)
  qed
  have io: "indexOf ?t [CHR 0x22] 1 = int (Suc (length a))"
    using indexOf_close_quote [OF assms(1)] by simp
  have st: "startsWith ?t [CHR 0x22]" by (simp add: startsWith_def)
  have n: "nat (int (Suc (length a))) = Suc (length a)" by simp
  have pat: "take (Suc (length a) - 1) (drop 1 ?t) = a" by simp
  have rest: "drop (Suc (length a) + 1) ?t = (if ms = [] then [] else ''  '' @ ms)"
    by simp
  show ?thesis
    unfolding patternAndMethods_def t Let_def io n pat rest after
    using st by simp
qed

lemma patternAndMethods_bare:
  assumes "noSpaces a" "a \<noteq> []" "\<not> startsWith a [CHR 0x22]" "noSpaces ms"
  shows "patternAndMethods (a @ (if ms = [] then [] else ''  '' @ ms))
           = Some (a, if ms = [] then None else Some ms)"
proof -
  let ?t = "a @ (if ms = [] then [] else ''  '' @ ms)"
  have ns: "\<not> isSpace (hd a)" "\<not> isSpace (last a)"
    using assms(1,2) by (auto simp: noSpaces_def list_all_iff)
  have l: "\<not> isSpace (hd ?t) \<and> \<not> isSpace (last ?t)"
    using assms(1,2,4) ns by (cases ms rule: rev_cases) (auto simp: noSpaces_def)
  have t: "trim ?t = ?t"
    using l by (intro trim_id) simp
  have q: "\<not> startsWith ?t [CHR 0x22]"
    using assms(2,3) by (cases a) (auto simp: startsWith_def)
  have sp: "splitSpaces ?t = (if ms = [] then [a] else [a, ms])"
    using assms(1,4) by (simp add: splitSpaces_token splitSpaces_two)
  show ?thesis
    unfolding patternAndMethods_def t Let_def sp
    using q by simp
qed

lemma flagMatch_suffix:
  assumes "flagLetters fl"
  shows "flagMatch (p @ ''/'' @ fl) = Some fl"
proof -
  have "CHR ''/'' \<notin> set ''gimsuy''" by simp
  with assms have ns: "CHR ''/'' \<notin> set fl"
    unfolding flagLetters_def list_all_iff by blast
  then have "takeWhile (\<lambda>c. c \<noteq> CHR ''/'') (rev fl @ CHR ''/'' # rev p) = rev fl"
    by (subst takeWhile_append2) auto
  then have suf: "rev (takeWhile (\<lambda>c. c \<noteq> CHR ''/'') (rev (p @ ''/'' @ fl))) = fl"
    by simp
  have mem: "CHR ''/'' \<in> set (p @ ''/'' @ fl)" by simp
  have fl: "fl \<noteq> []" "list_all (\<lambda>c. c \<in> set ''gimsuy'') fl"
    using assms by (simp_all add: flagLetters_def)
  show ?thesis
    unfolding flagMatch_def Let_def suf
    by (simp only: mem fl simp_thms if_True)
qed

lemma method_token:
  "CHR '','' \<notin> set (HttpMethod_str m)" "noSpaces (HttpMethod_str m)" "HttpMethod_str m \<noteq> []"
  "validMethod (toUpperCase (trim (HttpMethod_str m))) = Some m"
  by (cases m; simp add: noSpaces_def isSpace_def validMethod_def toUpperCase_def toUpperChar_def trim_def)+

lemma join_noSpaces:
  "\<forall>x\<in>set xs. noSpaces x \<Longrightarrow> noSpaces (join xs '','')"
  by (induction xs "'',''" rule: join.induct) (simp_all add: noSpaces_def isSpace_def)

lemma join_nonempty: "xs \<noteq> [] \<Longrightarrow> \<forall>x\<in>set xs. x \<noteq> [] \<Longrightarrow> join xs sep \<noteq> []"
  by (induction xs sep rule: join.induct) simp_all

lemma map_filter_inverse:
  "(\<And>x. f (g x) = Some x) \<Longrightarrow> List.map_filter f (map g xs) = xs"
  by (induction xs) simp_all

lemma parseMethods_join:
  assumes "ms \<noteq> []"
  shows "parseMethods (join (map HttpMethod_str ms) '','') = Some ms"
proof -
  have "split (join (map HttpMethod_str ms) [CHR '','']) (CHR '','') = map HttpMethod_str ms"
    using assms by (intro split_join) (auto simp: method_token)
  then show ?thesis
    using assms
    by (simp add: parseMethods_def Let_def map_filter_inverse [of _ HttpMethod_str] method_token)
qed

lemma mode_noSpaces: "noSpaces (FilterMode_str m)"
  by (cases m; simp add: noSpaces_def isSpace_def)

lemma mode_nonempty: "FilterMode_str m \<noteq> []"
  by (cases m; simp)

lemma mode_valid: "validMode (toLowerCase (FilterMode_str m)) = Some m"
  by (cases m; simp add: validMode_def toLowerCase_def toLowerChar_def)

lemma mode_hd: "hd (FilterMode_str m) \<noteq> CHR ''#''" "\<not> isSpace (hd (FilterMode_str m))"
  by (cases m; simp add: isSpace_def)+

lemma kind_noSpaces: "noSpaces (RuleKind_str k)"
  by (cases k; simp add: noSpaces_def isSpace_def)

lemma kind_nonempty: "RuleKind_str k \<noteq> []"
  by (cases k; simp)

lemma kind_valid: "validType (toLowerCase (RuleKind_str k)) = Some k"
  by (cases k; simp add: validType_def toLowerCase_def toLowerChar_def)

lemma rule_rebuild:
  "r\<lparr> rule_id := a, description := b \<rparr>
     = \<lparr> rule_id = a, mode = mode r, pattern = pattern r, isRegex = isRegex r,
         enabled = enabled r, description = b, methods = methods r,
         regexFlags = regexFlags r \<rparr>"
  by (cases r) simp

text \<open>
  Parsing the line \<^verbatim>\<open>serializeRule\<close> writes for a serializable rule, under any of the
  four kinds and at any line index, yields that rule with the kind and the index: mode,
  pattern, regular-expression mark, flags, methods and enabled mark are the rule's, and
  identifier and description are the ones the parser derives from the line number.
\<close>

theorem serialize_parse_round_trip:
  assumes ok: "serializable r"
  shows "parseRuleLine (serializeRule (RuleKind_str k) r) i
           = Some \<lparr> rule = r\<lparr> rule_id := ''rule-line-'' @ decimal (i + 1),
                               description := ''line '' @ decimal (i + 1) \<rparr>,
                     entryType = k, lineNumber = i \<rparr>"
proof -
  define raw where "raw = rawPattern r"
  define msS where
    "msS = (case methods r of None \<Rightarrow> [] | Some ms \<Rightarrow> join (map HttpMethod_str ms) '','')"
  define mStr where "mStr = (if msS = [] then [] else ''  '' @ msS)"
  define pStr where
    "pStr = (if CHR '' '' \<in> set raw then [CHR 0x22] @ raw @ [CHR 0x22] else raw)"
  define content where
    "content = FilterMode_str (mode r) @ ''  '' @ RuleKind_str k @ ''  '' @ pStr @ mStr"

  have flags: "(case regexFlags r of None \<Rightarrow> []
                 | Some fl \<Rightarrow> if isRegex r \<and> fl \<noteq> [] then ''/'' @ fl else [])
               = (case regexFlags r of None \<Rightarrow> [] | Some fl \<Rightarrow> ''/'' @ fl)"
    using ok by (auto simp: serializable_def flagLetters_def split: option.splits)
  have mne: "\<And>ms. methods r = Some ms \<Longrightarrow> ms \<noteq> []"
    using ok by (auto simp: serializable_def)
  have msS_ne: "msS \<noteq> []" if "methods r = Some ms" for ms
  proof -
    have "join (map HttpMethod_str ms) '','' \<noteq> []"
      using mne [OF that] by (intro join_nonempty) (auto simp: method_token)
    with that show ?thesis by (simp add: msS_def)
  qed
  have msS_ns: "noSpaces msS"
    by (auto simp: msS_def noSpaces_def [of "[]"] method_token intro!: join_noSpaces
             split: option.splits)
  have mstr: "(case methods r of None \<Rightarrow> []
                | Some ms \<Rightarrow> if length ms > 0 then ''  '' @ join (map HttpMethod_str ms) '','' else [])
              = mStr"
    using mne msS_ne by (auto simp: mStr_def msS_def split: option.splits)
  have ser: "serializeRule (RuleKind_str k) r
               = (if enabled r then [] else DISABLED_PREFIX) @ content"
    unfolding serializeRule_def Let_def flags mstr content_def pStr_def raw_def rawPattern_def
    by simp

  have raw_ne: "raw \<noteq> []"
    using ok by (auto simp: raw_def rawPattern_def serializable_def)
  have quoted: "CHR 0x22 \<notin> set raw" if "CHR '' '' \<in> set raw"
    using ok that by (simp add: serializable_def raw_def)
  have bare: "noSpaces raw \<and> \<not> startsWith raw [CHR 0x22]" if "CHR '' '' \<notin> set raw"
    using ok that by (simp add: serializable_def raw_def)
  have pm: "patternAndMethods (pStr @ mStr) = Some (raw, if msS = [] then None else Some msS)"
  proof (cases "CHR '' '' \<in> set raw")
    case True
    with patternAndMethods_quoted [OF quoted [OF True] msS_ns] show ?thesis
      by (simp add: pStr_def mStr_def)
  next
    case False
    with patternAndMethods_bare [of raw msS] bare [OF False] raw_ne msS_ns show ?thesis
      by (simp add: pStr_def mStr_def)
  qed
  have p_hd: "\<not> isSpace (hd (pStr @ mStr))"
  proof (cases "CHR '' '' \<in> set raw")
    case True
    then show ?thesis by (simp add: pStr_def isSpace_def)
  next
    case False
    with bare raw_ne noSpaces_hd [of raw] show ?thesis by (simp add: pStr_def)
  qed
  have p_last: "\<not> isSpace (last (pStr @ mStr))"
  proof (cases "msS = []")
    case True
    show ?thesis
    proof (cases "CHR '' '' \<in> set raw")
      case True
      with \<open>msS = []\<close> show ?thesis by (simp add: pStr_def mStr_def isSpace_def)
    next
      case False
      with bare raw_ne have "\<not> isSpace (last raw)"
        by (auto simp: noSpaces_def list_all_iff)
      with False \<open>msS = []\<close> raw_ne show ?thesis by (simp add: pStr_def mStr_def)
    qed
  next
    case False
    with msS_ns have "\<not> isSpace (last msS)" by (auto simp: noSpaces_def list_all_iff)
    with False show ?thesis by (simp add: mStr_def)
  qed
  have p_ne: "pStr @ mStr \<noteq> []"
    using raw_ne by (simp add: pStr_def)
  have fs: "firstSplit content = Some (FilterMode_str (mode r), RuleKind_str k, pStr @ mStr)"
    unfolding content_def
    using firstSplit_fields [OF mode_noSpaces mode_nonempty kind_noSpaces kind_nonempty,
        of "pStr @ mStr" "mode r" k] p_hd
    by simp
  have c_trim: "trim content = content"
  proof (rule trim_id)
    have "hd content = hd (FilterMode_str (mode r))"
      using mode_nonempty [of "mode r"] by (simp add: content_def)
    moreover have "last content = last (pStr @ mStr)"
    proof -
      have "content = (FilterMode_str (mode r) @ ''  '' @ RuleKind_str k @ ''  '')
                        @ (pStr @ mStr)"
        by (simp add: content_def)
      then show ?thesis by (simp only: last_appendR [OF p_ne])
    qed
    ultimately show "content = [] \<or> (\<not> isSpace (hd content) \<and> \<not> isSpace (last content))"
      using mode_hd(2) [of "mode r"] p_last by simp
  qed
  have c_hash: "\<not> startsWith content DISABLED_PREFIX"
  proof -
    have "hd content \<noteq> CHR ''#''"
      using mode_nonempty [of "mode r"] mode_hd(1) [of "mode r"] by (simp add: content_def)
    moreover have "content \<noteq> []" using mode_nonempty [of "mode r"] by (simp add: content_def)
    ultimately show ?thesis
      by (cases content) (auto simp: startsWith_def DISABLED_PREFIX_def)
  qed
  have en: "(\<not> startsWith (serializeRule (RuleKind_str k) r) DISABLED_PREFIX) = enabled r"
    unfolding ser using c_hash by (simp add: startsWith_def)
  have ct: "(if startsWith (serializeRule (RuleKind_str k) r) DISABLED_PREFIX
             then trim (drop (length DISABLED_PREFIX) (serializeRule (RuleKind_str k) r))
             else serializeRule (RuleKind_str k) r) = content"
    unfolding ser using c_hash c_trim by (simp add: startsWith_def)

  have re: "startsWith raw ''~'' = isRegex r"
    using ok by (auto simp: raw_def rawPattern_def serializable_def startsWith_def)
  have d1: "drop (Suc 0) raw
              = pattern r @ (case regexFlags r of None \<Rightarrow> [] | Some fl \<Rightarrow> ''/'' @ fl)"
    if "isRegex r"
    using that by (simp add: raw_def rawPattern_def)
  have d0: "raw = pattern r" "regexFlags r = None" if "\<not> isRegex r"
    using that ok by (auto simp: raw_def rawPattern_def serializable_def split: option.splits)
  have fl1: "flagMatch (drop (Suc 0) raw) = regexFlags r" if "isRegex r"
  proof (cases "regexFlags r")
    case None
    with ok that show ?thesis by (simp add: d1 [OF that] serializable_def)
  next
    case (Some fl)
    with ok have "flagLetters fl" by (simp add: serializable_def)
    with Some flagMatch_suffix [of fl "pattern r"] show ?thesis by (simp add: d1 [OF that])
  qed
  have me: "(case (if msS = [] then None else Some msS) of
               None \<Rightarrow> None
             | Some ms \<Rightarrow> if ms = [] then None else parseMethods ms) = methods r"
  proof (cases "methods r")
    case None
    then show ?thesis by (simp add: msS_def)
  next
    case (Some ms)
    with msS_ne mne parseMethods_join [of ms] show ?thesis by (simp add: msS_def)
  qed
  show ?thesis
  proof (cases "isRegex r")
    case False
    show ?thesis
      unfolding rule_rebuild parseRuleLine_def Let_def en ct fs
      using False d0 [OF False] pm raw_ne re me
      by (simp add: mode_valid kind_valid)
  next
    case True
    show ?thesis
    proof (cases "regexFlags r")
      case None
      show ?thesis
        unfolding rule_rebuild parseRuleLine_def Let_def en ct fs
        using True None fl1 [OF True] d1 [OF True] pm raw_ne re me
        by (simp add: mode_valid kind_valid)
    next
      case (Some fl)
      show ?thesis
        unfolding rule_rebuild parseRuleLine_def Let_def en ct fs
        using True Some fl1 [OF True] d1 [OF True] pm raw_ne re me
        by (simp add: mode_valid kind_valid)
    qed
  qed
qed

text \<open>The statement at the sample installation.\<close>

theorem serialize_parse_round_trip_witness:
  "serializable quotedRule
 \<and> serializeRule (RuleKind_str KeywordKind) quotedRule
     = ''#!disabled deny  keyword  '' @ [CHR 0x22] @ ''~my password/i'' @ [CHR 0x22] @ ''  GET,POST''
 \<and> parseRuleLine (serializeRule (RuleKind_str KeywordKind) quotedRule) 3
     = Some \<lparr> rule = quotedRule, entryType = KeywordKind, lineNumber = 3 \<rparr>"
proof -
  have s: "serializable quotedRule" by code_simp
  have t: "serializeRule (RuleKind_str KeywordKind) quotedRule
     = ''#!disabled deny  keyword  '' @ [CHR 0x22] @ ''~my password/i'' @ [CHR 0x22] @ ''  GET,POST''"
    by code_simp
  have e: "quotedRule\<lparr> rule_id := ''rule-line-'' @ decimal (3 + 1),
                        description := ''line '' @ decimal (3 + 1) \<rparr> = quotedRule"
    by code_simp
  from serialize_parse_round_trip [OF s, of KeywordKind 3]
  have p: "parseRuleLine (serializeRule (RuleKind_str KeywordKind) quotedRule) 3
     = Some \<lparr> rule = quotedRule, entryType = KeywordKind, lineNumber = 3 \<rparr>"
    unfolding e .
  show ?thesis by (intro conjI; fact)
qed

text \<open>
  A stage whose first match excludes the method is skipped as a whole: a later rule of the
  same kind that matches and applies to every method is not consulted. With the folder
  rules \<^verbatim>\<open>allow Shared/** GET\<close> and \<^verbatim>\<open>deny Shared/**\<close> a \<^verbatim>\<open>PUT\<close> falls to the
  default policy, although the second rule alone denies it.
\<close>

theorem mismatched_rule_hides_later_rules_of_its_kind:
  "allowed (evaluateFile sampleHost
      (mkEngine (noRules\<lparr> folder := [mkRule Allow ''Shared/**'' False (Some [GET]),
                                        mkRule Deny ''Shared/**'' False None] \<rparr>))
      ''Shared/doc.md'' noGlobalTags (Some ''PUT''))
 \<and> evaluateFile sampleHost
      (mkEngine (noRules\<lparr> folder := [mkRule Allow ''Shared/**'' False (Some [GET]),
                                        mkRule Deny ''Shared/**'' False None] \<rparr>))
      ''Shared/doc.md'' noGlobalTags (Some ''PUT'') = defaultDecision noGlobalTags
 \<and> \<not> allowed (evaluateFile sampleHost
      (mkEngine (noRules\<lparr> folder := [mkRule Deny ''Shared/**'' False None] \<rparr>))
      ''Shared/doc.md'' noGlobalTags (Some ''PUT''))"
  by code_simp

text \<open>
  The chain is terminal at the first stage that returns: a folder or name rule that applies
  is returned before the tag and keyword stages are run, so a cache miss or a rejected read
  denies only the candidates that reach those stages.
\<close>

theorem earlier_stage_precedes_fail_closed_denial:
  "collectFileTags ''Stale/d.md'' sampleCache sampleVault = CacheUnavailable
 \<and> tag (scopedTagRules\<lparr> folder := [mkRule Allow ''Stale/**'' False None] \<rparr>) \<noteq> []
 \<and> allowed (evaluateFile sampleHost
      (mkEngine (scopedTagRules\<lparr> folder := [mkRule Allow ''Stale/**'' False None] \<rparr>))
      ''Stale/d.md'' noGlobalTags (Some ''GET''))
 \<and> cachedRead sampleVault (TFile ''Locked/e.md'') = None
 \<and> keyword (scopedTagRules\<lparr> name := [mkRule Allow ''e.md'' False None] \<rparr>) \<noteq> []
 \<and> allowed (evaluateFile sampleHost
      (mkEngine (scopedTagRules\<lparr> name := [mkRule Allow ''e.md'' False None] \<rparr>))
      ''Locked/e.md'' noGlobalTags (Some ''GET''))"
  by code_simp

lemma flagMatch_Some:
  assumes "flagMatch s = Some fl"
  shows "flagLetters fl" and "s = take (length s - (length fl + 1)) s @ ''/'' @ fl"
proof -
  let ?suf = "rev (takeWhile (\<lambda>c. c \<noteq> CHR ''/'') (rev s))"
  from assms have fl: "fl = ?suf" and mem: "CHR ''/'' \<in> set s" and ne: "?suf \<noteq> []"
    and al: "list_all (\<lambda>c. c \<in> set ''gimsuy'') ?suf"
    by (auto simp: flagMatch_def Let_def split: if_splits)
  show "flagLetters fl" using fl ne al by (simp add: flagLetters_def)
  from mem have "CHR ''/'' \<in> set (rev s)" by simp
  then obtain ys zs where d: "rev s = ys @ CHR ''/'' # zs" and n: "CHR ''/'' \<notin> set ys"
    by (meson split_list_first)
  from n have "takeWhile (\<lambda>c. c \<noteq> CHR ''/'') (ys @ CHR ''/'' # zs) = ys"
    by (subst takeWhile_append2) auto
  with d have tw: "takeWhile (\<lambda>c. c \<noteq> CHR ''/'') (rev s) = ys"
    by simp
  from d have s: "s = rev zs @ CHR ''/'' # rev ys"
    by (metis rev_append rev.simps(2) rev_rev_ident append_assoc append_Cons append_Nil)
  from fl tw have f: "fl = rev ys" by simp
  show "s = take (length s - (length fl + 1)) s @ ''/'' @ fl"
    by (subst (1 2 3) s) (simp add: f)
qed

lemma indexOfAt_found:
  "indexOfAt s [c] n \<noteq> - 1 \<Longrightarrow>
     indexOfAt s [c] n \<ge> int n \<and> c \<notin> set (take (nat (indexOfAt s [c] n) - n) s)"
proof (induction s arbitrary: n)
  case Nil
  then show ?case by simp
next
  case (Cons x s)
  show ?case
  proof (cases "x = c")
    case True
    then show ?thesis by (simp add: startsWith_def)
  next
    case False
    with Cons.prems have p: "indexOfAt s [c] (Suc n) \<noteq> - 1" by (simp add: startsWith_def)
    from Cons.IH [OF p] False show ?thesis
      by (auto simp: startsWith_def Suc_diff_le nat_le_iff take_Cons' dest: in_set_takeD)
  qed
qed

lemma splitSpaces_nonempty: "splitSpaces t \<noteq> []"
  by (induction t) (auto split: list.splits)

lemma splitSpaces_first:
  "splitSpaces t = p0 # ps \<Longrightarrow> noSpaces p0 \<and> (p0 \<noteq> [] \<longrightarrow> t \<noteq> [] \<and> hd p0 = hd t)"
proof (induction t arbitrary: p0 ps)
  case Nil
  then show ?case by (simp add: noSpaces_def)
next
  case (Cons c cs)
  show ?case
  proof (cases "isSpace c")
    case True
    show ?thesis
    proof (cases "cs \<noteq> [] \<and> isSpace (hd cs)")
      case True
      with \<open>isSpace c\<close> Cons.prems have "splitSpaces cs = p0 # ps" by simp
      from Cons.IH [OF this] True have "noSpaces p0" and "p0 \<noteq> [] \<longrightarrow> isSpace (hd p0)"
        by auto
      moreover have "p0 \<noteq> [] \<longrightarrow> \<not> isSpace (hd p0)"
        using \<open>noSpaces p0\<close> noSpaces_hd [of p0] by auto
      ultimately show ?thesis by auto
    next
      case False
      with \<open>isSpace c\<close> Cons.prems have "p0 = []" by auto
      then show ?thesis by (simp add: noSpaces_def)
    qed
  next
    case False
    obtain w ws where w: "splitSpaces cs = w # ws"
      using splitSpaces_nonempty [of cs] by (cases "splitSpaces cs") auto
    with False Cons.prems have p0: "p0 = c # w" by simp
    from Cons.IH [OF w] have "noSpaces w" by simp
    with False p0 show ?thesis by (simp add: noSpaces_def)
  qed
qed

lemma patternAndMethods_pattern:
  assumes "patternAndMethods remainder = Some (pat, ms)" and "pat \<noteq> []"
  shows "CHR 0x22 \<notin> set pat \<or> (noSpaces pat \<and> \<not> startsWith pat [CHR 0x22])"
proof (cases "startsWith (trim remainder) [CHR 0x22]")
  case True
  define t where "t = trim remainder"
  from True obtain t' where t: "t = CHR 0x22 # t'"
    by (cases "trim remainder") (auto simp: startsWith_def t_def)
  have io: "indexOf t [CHR 0x22] 1 = indexOfAt t' [CHR 0x22] 1"
    by (simp add: indexOf_def t)
  from assms(1) True have cq: "indexOfAt t' [CHR 0x22] 1 \<noteq> - 1"
    and pat: "pat = take (nat (indexOfAt t' [CHR 0x22] 1) - 1) t'"
    unfolding patternAndMethods_def Let_def t_def [symmetric] io
    by (auto simp: t split: if_splits)
  from indexOfAt_found [OF cq] pat show ?thesis by simp
next
  case False
  define t where "t = trim remainder"
  obtain p0 ps where sp: "splitSpaces t = p0 # ps"
    using splitSpaces_nonempty [of t] by (cases "splitSpaces t") auto
  from assms(1) False sp have "pat = p0"
    unfolding patternAndMethods_def Let_def t_def [symmetric] by simp
  with splitSpaces_first [OF sp] assms(2) have ns: "noSpaces pat" and hd: "t \<noteq> []" "hd pat = hd t"
    by auto
  from False hd assms(2) have "\<not> startsWith pat [CHR 0x22]"
    unfolding t_def [symmetric] by (cases pat; cases t) (auto simp: startsWith_def)
  with ns show ?thesis by simp
qed

lemma patternAndMethods_methods:
  "(case ms of None \<Rightarrow> None | Some x \<Rightarrow> if x = [] then None else parseMethods x) \<noteq> Some []"
  by (auto simp: parseMethods_def Let_def split: option.splits)

lemma parseRuleLine_accepted:
  assumes "parseRuleLine line i = Some e"
  obtains pat ms where "pat \<noteq> []"
    and "CHR 0x22 \<notin> set pat \<or> (noSpaces pat \<and> \<not> startsWith pat [CHR 0x22])"
    and "isRegex (rule e) = startsWith pat ''~''"
    and "regexFlags (rule e) = (if startsWith pat ''~'' then flagMatch (drop 1 pat) else None)"
    and "pattern (rule e) = (case regexFlags (rule e) of
            None \<Rightarrow> (if startsWith pat ''~'' then drop 1 pat else pat)
          | Some fl \<Rightarrow> take (length (drop 1 pat) - (length fl + 1)) (drop 1 pat))"
    and "methods (rule e) \<noteq> Some []"
proof -
  from assms obtain rem pat ms m t where
    pm: "patternAndMethods rem = Some (pat, ms)" and ne: "pat \<noteq> []"
    and e: "e = \<lparr> rule = \<lparr> rule_id = ''rule-line-'' @ decimal (i + 1),
                          mode = m,
                          pattern = (case (if startsWith pat ''~'' then flagMatch (if startsWith pat ''~'' then drop 1 pat else pat) else None) of
                            None \<Rightarrow> (if startsWith pat ''~'' then drop 1 pat else pat)
                          | Some fl \<Rightarrow>
                              take (length (if startsWith pat ''~'' then drop 1 pat else pat) - (length fl + 1)) (if startsWith pat ''~'' then drop 1 pat else pat)),
                          isRegex = startsWith pat ''~'',
                          enabled = \<not> startsWith line DISABLED_PREFIX,
                          description = ''line '' @ decimal (i + 1),
                          methods = (case ms of
                        None \<Rightarrow> None
                      | Some ms \<Rightarrow> if ms = [] then None else parseMethods ms),
                          regexFlags = (if startsWith pat ''~'' then flagMatch (if startsWith pat ''~'' then drop 1 pat else pat) else None) \<rparr>,
                 entryType = t,
                 lineNumber = i \<rparr>"
    unfolding parseRuleLine_def Let_def
    by (auto split: option.splits prod.splits if_splits)
  show ?thesis
  proof (rule that [of pat])
    show "pat \<noteq> []" by fact
    show "CHR 0x22 \<notin> set pat \<or> (noSpaces pat \<and> \<not> startsWith pat [CHR 0x22])"
      by (rule patternAndMethods_pattern [OF pm ne])
    show "isRegex (rule e) = startsWith pat ''~''" by (simp add: e)
    show "regexFlags (rule e) = (if startsWith pat ''~'' then flagMatch (drop 1 pat) else None)"
      by (simp add: e)
    show "pattern (rule e) = (case regexFlags (rule e) of
            None \<Rightarrow> (if startsWith pat ''~'' then drop 1 pat else pat)
          | Some fl \<Rightarrow> take (length (drop 1 pat) - (length fl + 1)) (drop 1 pat))"
      by (simp add: e split: option.splits)
    show "methods (rule e) \<noteq> Some []"
      unfolding e using patternAndMethods_methods [of ms] by simp
  qed
qed

text \<open>
  Every rule that \<^verbatim>\<open>parseRuleLine\<close> accepts is serializable, unless its pattern as written
  contains white space and no space character (a tab inside a quoted pattern). With the
  round trip above, a rule file that is parsed, written and parsed again yields the same
  rules outside that case.
\<close>

theorem parsed_rule_is_serializable:
  assumes "parseRuleLine line i = Some e"
    and "CHR '' '' \<in> set (rawPattern (rule e)) \<or> noSpaces (rawPattern (rule e))"
  shows "serializable (rule e)"
proof -
  from assms(1) obtain pat where ne: "pat \<noteq> []"
    and q: "CHR 0x22 \<notin> set pat \<or> (noSpaces pat \<and> \<not> startsWith pat [CHR 0x22])"
    and ir: "isRegex (rule e) = startsWith pat ''~''"
    and fl: "regexFlags (rule e) = (if startsWith pat ''~'' then flagMatch (drop 1 pat) else None)"
    and pt: "pattern (rule e) = (case regexFlags (rule e) of
            None \<Rightarrow> (if startsWith pat ''~'' then drop 1 pat else pat)
          | Some fl \<Rightarrow> take (length (drop 1 pat) - (length fl + 1)) (drop 1 pat))"
    and ms: "methods (rule e) \<noteq> Some []"
    by (rule parseRuleLine_accepted)
  have raw: "rawPattern (rule e) = pat"
  proof (cases "startsWith pat ''~''")
    case False
    with ir fl pt show ?thesis by (simp add: rawPattern_def)
  next
    case True
    then have p: "pat = ''~'' @ drop 1 pat" by (cases pat) (auto simp: startsWith_def)
    show ?thesis
    proof (cases "flagMatch (drop 1 pat)")
      case None
      with True ir fl pt p show ?thesis by (simp add: rawPattern_def)
    next
      case (Some f)
      from flagMatch_Some(2) [OF Some]
      have "drop 1 pat = take (length (drop 1 pat) - (length f + 1)) (drop 1 pat) @ ''/'' @ f" .
      moreover from True Some ir fl pt
      have "rawPattern (rule e) = ''~'' @ take (length (drop 1 pat) - (length f + 1)) (drop 1 pat) @ ''/'' @ f"
        by (simp add: rawPattern_def)
      ultimately have "rawPattern (rule e) = ''~'' @ drop 1 pat" by simp
      with p show ?thesis by simp
    qed
  qed
  have a: "case regexFlags (rule e) of
         None \<Rightarrow> isRegex (rule e) \<longrightarrow> flagMatch (pattern (rule e)) = None
       | Some fl \<Rightarrow> isRegex (rule e) \<and> flagLetters fl"
  proof (cases "regexFlags (rule e)")
    case None
    with fl pt ir show ?thesis by (auto split: if_splits)
  next
    case (Some f)
    with fl have "startsWith pat ''~''" and "flagMatch (drop 1 pat) = Some f"
      by (auto split: if_splits)
    with flagMatch_Some(1) [of "drop 1 pat" f] ir Some show ?thesis by simp
  qed
  have b: "\<not> isRegex (rule e) \<longrightarrow> pattern (rule e) \<noteq> [] \<and> \<not> startsWith (pattern (rule e)) ''~''"
    using ir fl pt ne by auto
  have c: "if CHR '' '' \<in> set (rawPattern (rule e))
         then CHR 0x22 \<notin> set (rawPattern (rule e))
         else noSpaces (rawPattern (rule e)) \<and> \<not> startsWith (rawPattern (rule e)) [CHR 0x22]"
  proof (cases "CHR '' '' \<in> set pat")
    case True
    then have "\<not> noSpaces pat" by (auto simp: noSpaces_def list_all_iff isSpace_def)
    with q True show ?thesis unfolding raw by simp
  next
    case False
    with assms(2) have "noSpaces pat" unfolding raw by simp
    moreover from q ne have "\<not> startsWith pat [CHR 0x22]"
      by (cases pat) (auto simp: startsWith_def)
    ultimately show ?thesis using False unfolding raw by simp
  qed
  from a b c ms show ?thesis unfolding serializable_def by simp
qed

text \<open>The statement at the sample installation.\<close>

theorem parsed_rule_is_serializable_witness:
  "parseRuleLine (''#!disabled deny keyword '' @ [CHR 0x22] @ ''~my password/i'' @ [CHR 0x22] @ '' get,post'') 3
     = Some \<lparr> rule = quotedRule, entryType = KeywordKind, lineNumber = 3 \<rparr>
 \<and> CHR '' '' \<in> set (rawPattern quotedRule)
 \<and> serializable quotedRule"
proof -
  have p: "parseRuleLine (''#!disabled deny keyword '' @ [CHR 0x22] @ ''~my password/i'' @ [CHR 0x22] @ '' get,post'') 3
     = Some \<lparr> rule = quotedRule, entryType = KeywordKind, lineNumber = 3 \<rparr>"
    by code_simp
  have r: "CHR '' '' \<in> set (rawPattern quotedRule)" by code_simp
  from parsed_rule_is_serializable [OF p] r
  have s: "serializable quotedRule" by simp
  show ?thesis by (intro conjI; fact)
qed

end
